(* ===== verification/Mold_Prelude.thy ===== *)
theory Mold_Prelude
  imports Main "HOL-Library.Word"
begin

section \<open>Prelude: Go values, slices, byte order and outcomes\<close>

text \<open>
  What the components share. Go's fixed-width integers are words of the same width
  (\<open>byte\<close>, \<open>u16\<close>, \<open>u32\<close>, \<open>u64\<close>; Go's \<open>int\<close> is a \<open>goint\<close> of 64 bits where it
  is a counter that can wrap, and a \<open>nat\<close> where it is the length of a slice or an index
  into one). A byte slice is a byte list, a Go string is its sequence of bytes.

  A call ends in one of three ways: it returns (\<open>Ok\<close>), it returns an error value
  (\<open>Err\<close>), or it panics (\<open>Panic\<close>: an index or a slice bound out of range, a nil
  dereference, \<open>make\<close> with a negative length; \<open>UnsafeAccess\<close> stands for a write or read past the
  end of a buffer through an \<open>unsafe.Pointer\<close>, which Go does not check). \<open>go_error\<close> has one constructor for
  every package-level error variable of moldUDP.go, client.go and mcast.go, one for an
  errno a system call reports and one for the texts zsocket.go formats.

  The package \<open>encoding/binary\<close> belongs to the standard library: \<open>PutUint16\<close>,
  \<open>Uint16\<close>, \<open>PutUint64\<close> and \<open>Uint64\<close> are its big-endian coder, which encode.go
  selects as \<open>coder\<close>.
\<close>

unbundle bit_operations_syntax

type_synonym byte = "8 word"
type_synonym u16 = "16 word"
type_synonym u32 = "32 word"
type_synonym u64 = "64 word"
type_synonym goint = "64 word"

named_theorems go_simps \<open>unfolding of slice operations and of the byte order\<close>
named_theorems outcome_simps \<open>case analysis over outcomes\<close>

subsection \<open>Errors, panics and outcomes\<close>

datatype go_error =
    ErrTooShort
  | ErrUnmarshal
  | ErrMessageCnt
  | ErrClosed
  | ErrNoIP
  | ErrDecodeHead
  | ErrInvMessageCnt
  | ErrSession
  | ErrNotSupport
  | ErrOpened
  | ErrModeRW
  | ErrUDPlen
  | Errno int
  | ErrText string

datatype go_panic = IndexOutOfRange | SliceOutOfRange | MakeSliceLen | NilDeref | DivideByZero | UnsafeAccess

datatype 'a outcome = Ok 'a | Err go_error | Panic go_panic

fun bind_outcome :: "'a outcome \<Rightarrow> ('a \<Rightarrow> 'b outcome) \<Rightarrow> 'b outcome" where
  "bind_outcome (Ok x) f = f x"
| "bind_outcome (Err e) f = Err e"
| "bind_outcome (Panic p) f = Panic p"

fun is_panic :: "'a outcome \<Rightarrow> bool" where
  "is_panic (Panic p) = True"
| "is_panic (Ok x) = False"
| "is_panic (Err e) = False"

lemma bind_outcome_Ok [outcome_simps]:
  "bind_outcome m f = Ok y \<longleftrightarrow> (\<exists>x. m = Ok x \<and> f x = Ok y)"
  by (cases m) auto

lemma not_panic_cases: "\<not> is_panic r \<Longrightarrow> (\<exists>x. r = Ok x) \<or> (\<exists>e. r = Err e)"
  by (cases r) auto

subsection \<open>Slices\<close>

text \<open>
  \<open>copy(dst, src)\<close> copies \<open>min (len dst) (len src)\<close> elements and leaves the rest of
  \<open>dst\<close>; \<open>go_slice xs lo hi\<close> is \<open>xs[lo:hi]\<close>, and \<open>put_slice xs lo hi src\<close> is the
  slice \<open>xs\<close> after \<open>copy(xs[lo:hi], src)\<close>. Both are used under bounds that make them
  the Go operations; where the source can leave the bounds, the model checks them first.
\<close>

definition go_copy :: "'a list \<Rightarrow> 'a list \<Rightarrow> 'a list" where
  "go_copy dst src = take (length dst) src @ drop (length src) dst"

definition go_slice :: "'a list \<Rightarrow> nat \<Rightarrow> nat \<Rightarrow> 'a list" where
  "go_slice xs lo hi = take (hi - lo) (drop lo xs)"

definition put_slice :: "'a list \<Rightarrow> nat \<Rightarrow> nat \<Rightarrow> 'a list \<Rightarrow> 'a list" where
  "put_slice xs lo hi src = take lo xs @ go_copy (go_slice xs lo hi) src @ drop hi xs"

lemma length_go_copy [simp]: "length (go_copy dst src) = length dst"
  by (simp add: go_copy_def)

lemma go_copy_exact: "length src = length dst \<Longrightarrow> go_copy dst src = src"
  by (simp add: go_copy_def)

lemma length_slice [simp]: "length (go_slice xs lo hi) = min (hi - lo) (length xs - lo)"
  by (simp add: go_slice_def)

lemma slice_full [simp]: "go_slice xs 0 (length xs) = xs"
  by (simp add: go_slice_def)

lemma length_put_slice [simp]:
  "lo \<le> hi \<Longrightarrow> hi \<le> length xs \<Longrightarrow> length (put_slice xs lo hi src) = length xs"
  by (simp add: put_slice_def)

lemma put_slice_exact:
  assumes "lo \<le> hi" "hi \<le> length xs" "length src = hi - lo"
  shows "put_slice xs lo hi src = take lo xs @ src @ drop hi xs"
  using assms by (simp add: put_slice_def go_copy_exact)

lemma take_put_slice: "k \<le> lo \<Longrightarrow> lo \<le> length xs \<Longrightarrow> take k (put_slice xs lo hi src) = take k xs"
  by (simp add: put_slice_def min_def)

lemma drop_put_slice:
  "lo \<le> hi \<Longrightarrow> hi \<le> k \<Longrightarrow> hi \<le> length xs \<Longrightarrow> drop k (put_slice xs lo hi src) = drop k xs"
  by (simp add: put_slice_def)

lemma slice_append_mid [simp]:
  "length a = lo \<Longrightarrow> length b = hi - lo \<Longrightarrow> go_slice (a @ b @ c) lo hi = b"
  by (simp add: go_slice_def)

lemma slice_append2_mid [simp]:
  "length a = lo \<Longrightarrow> length b = hi - lo \<Longrightarrow> go_slice (a @ b) lo hi = b"
  by (simp add: go_slice_def)

lemma slice_append_front: "length a = n \<Longrightarrow> n \<le> lo \<Longrightarrow> go_slice (a @ b) lo hi = go_slice b (lo - n) (hi - n)"
  by (simp add: go_slice_def)

lemma slice_append_left: "hi \<le> length a \<Longrightarrow> go_slice (a @ b) lo hi = go_slice a lo hi"
  by (auto simp: go_slice_def)

lemma fold_fill:
  "n \<le> length xs \<Longrightarrow> fold (\<lambda>i b. b[i := x]) [0..<n] xs = replicate n x @ drop n xs"
proof (induction n)
  case 0
  then show ?case by simp
next
  case (Suc n)
  then have "drop n xs = xs ! n # drop (Suc n) xs" by (simp add: Cons_nth_drop_Suc)
  with Suc show ?case by (simp add: list_update_append replicate_append_same)
qed

lemma slice_from_add: "go_slice xs off (off + k) = take k (drop off xs)"
  by (simp add: go_slice_def)

lemma slice2: "go_slice xs off (Suc (Suc off)) = take 2 (drop off xs)"
  using slice_from_add [of xs off 2] by simp

subsection \<open>Big-endian byte order\<close>

definition PutUint16 :: "u16 \<Rightarrow> byte list" where
  "PutUint16 v = [ucast (drop_bit 8 v), ucast v]"

definition Uint16 :: "byte list \<Rightarrow> u16" where
  "Uint16 b = ucast (b ! 1) OR push_bit 8 (ucast (b ! 0))"

definition PutUint64 :: "u64 \<Rightarrow> byte list" where
  "PutUint64 v =
     [ucast (drop_bit 56 v), ucast (drop_bit 48 v), ucast (drop_bit 40 v), ucast (drop_bit 32 v),
      ucast (drop_bit 24 v), ucast (drop_bit 16 v), ucast (drop_bit 8 v), ucast v]"

definition Uint64 :: "byte list \<Rightarrow> u64" where
  "Uint64 b =
     ucast (b ! 7) OR push_bit 8 (ucast (b ! 6)) OR push_bit 16 (ucast (b ! 5)) OR
     push_bit 24 (ucast (b ! 4)) OR push_bit 32 (ucast (b ! 3)) OR push_bit 40 (ucast (b ! 2)) OR
     push_bit 48 (ucast (b ! 1)) OR push_bit 56 (ucast (b ! 0))"

lemma length_PutUint16 [simp]: "length (PutUint16 v) = 2"
  by (simp add: PutUint16_def)

lemma length_PutUint64 [simp]: "length (PutUint64 v) = 8"
  by (simp add: PutUint64_def)

lemma PutUint16_not_Nil [simp]: "PutUint16 v \<noteq> []"
  by (simp add: PutUint16_def)

lemma Uint16_PutUint16 [simp]: "Uint16 (PutUint16 v) = v"
  unfolding Uint16_def PutUint16_def
  by (rule bit_word_eqI) (auto simp: bit_simps)

lemma byte_of_u64: "ucast (ucast w :: byte) = take_bit 8 (w :: u64)"
  by (rule bit_word_eqI) (auto simp: bit_simps)

lemma take_bit_glue:
  "take_bit k w OR push_bit k (take_bit m (drop_bit k w)) = take_bit (k + m) (w :: u64)"
  by (rule bit_word_eqI) (auto simp: bit_simps)

lemma Uint64_PutUint64 [simp]: "Uint64 (PutUint64 v) = v"
proof -
  note glue = take_bit_glue [of 8 v 8] take_bit_glue [of 16 v 8] take_bit_glue [of 24 v 8]
    take_bit_glue [of 32 v 8] take_bit_glue [of 40 v 8] take_bit_glue [of 48 v 8]
    take_bit_glue [of 56 v 8]
  have "take_bit 64 v = v" by (rule bit_word_eqI) (auto simp: bit_simps)
  with glue show ?thesis
    unfolding Uint64_def PutUint64_def by (simp add: byte_of_u64 or.assoc [symmetric])
qed

lemma PutUint16_Uint16:
  assumes "length b = 2"
  shows "PutUint16 (Uint16 b) = b"
proof -
  from assms obtain x y where b: "b = [x, y]"
    by (auto simp: numeral_2_eq_2 length_Suc_conv)
  have "ucast (drop_bit 8 (ucast y OR push_bit 8 (ucast x) :: u16)) = x"
    by (rule bit_word_eqI) (auto simp: bit_simps dest: bit_imp_le_length)
  moreover have "ucast (ucast y OR push_bit 8 (ucast x) :: u16) = y"
    by (rule bit_word_eqI) (auto simp: bit_simps)
  ultimately show ?thesis by (simp add: b PutUint16_def Uint16_def)
qed

lemma unat_u16_less [simp]: "unat (w :: u16) < 65536"
  using unsigned_less [where w = w] by simp

lemma unat_u64_less [simp]: "unat (w :: u64) < 18446744073709551616"
  using unsigned_less [where w = w] by simp

lemma unat_of_nat_u16: "n < 65536 \<Longrightarrow> unat (of_nat n :: u16) = n"
  by (simp add: unat_of_nat take_bit_nat_eq_self_iff)

lemma unat_of_nat_u64: "n < 18446744073709551616 \<Longrightarrow> unat (of_nat n :: u64) = n"
  by (simp add: unat_of_nat take_bit_nat_eq_self_iff)

lemma unat_ucast_u16_u64 [simp]: "unat (ucast (n :: u16) :: u64) = unat n"
  using unat_u16_less [of n]
  by (simp add: unsigned_ucast_eq take_bit_nat_eq_self_iff del: unat_u16_less)

end
