(* ===== verification/Mold_Codec.thy ===== *)
theory Mold_Codec
  imports Mold_Prelude
begin

section \<open>The packet codec (moldUDP.go)\<close>

text \<open>
  The MoldUDP64 packet: a header of 20 bytes (session of 10 bytes padded with blanks,
  sequence number, message count, both big-endian) and message blocks, each a length of
  two bytes and that many bytes of data. \<open>EncodeHead\<close> and \<open>DecodeHead\<close> are the header,
  \<open>Marshal\<close> and \<open>Unmarshal\<close> the message blocks; a buffer that Go writes in place is
  returned updated. The lemmas give the round trips, the exact shape of what \<open>Unmarshal\<close>
  accepts, that \<open>Marshal\<close> packs the longest prefix that fits, and the locale \<open>framing\<close>
  states what a client of the codec may rely on.
\<close>

subsection \<open>Data\<close>

record Message =
  Data :: "byte list"

record Header =
  Session :: "byte list"
  SeqNo :: u64
  MessageCnt :: u16

definition headSize :: nat where
  "headSize = 20"

definition blank :: byte where
  "blank = 32"

subsection \<open>The header\<close>

definition EncodeHead :: "byte list \<Rightarrow> Header \<Rightarrow> byte list outcome" where
  "EncodeHead buff head =
     (if length buff < headSize then Err ErrTooShort
      else
        let b1 = fold (\<lambda>i b. b[i := blank]) [0..<10] buff;
            b2 = put_slice b1 0 10 (Session head);
            b3 = put_slice b2 10 18 (PutUint64 (SeqNo head));
            b4 = put_slice b3 18 20 (PutUint16 (MessageCnt head))
        in Ok b4)"

text \<open>The loop \<open>for i = 9; i > 0; i--\<close> of \<open>DecodeHead\<close>, from the index it looks at.\<close>

fun trim_loop :: "byte list \<Rightarrow> nat \<Rightarrow> nat" where
  "trim_loop buff 0 = 0"
| "trim_loop buff (Suc i) = (if buff ! Suc i \<noteq> blank then Suc i + 1 else trim_loop buff i)"

definition DecodeHead :: "byte list \<Rightarrow> Header outcome" where
  "DecodeHead buff =
     (if length buff < headSize then Err ErrTooShort
      else
        let i = trim_loop buff 9
        in Ok \<lparr>Session = go_slice buff 0 i,
               SeqNo = Uint64 (go_slice buff 10 18),
               MessageCnt = Uint16 (go_slice buff 18 20)\<rparr>)"

subsection \<open>Message blocks\<close>

text \<open>
  The loop of \<open>Unmarshal\<close>: the state is \<open>ret\<close>, \<open>i\<close> and \<open>off\<close>; it ends at the end
  of the buffer, by \<open>break\<close> at the \<open>cnt\<close>-th message, or with an error.
\<close>

function unmarshal_loop ::
  "byte list \<Rightarrow> nat \<Rightarrow> Message list \<Rightarrow> nat \<Rightarrow> nat \<Rightarrow> (Message list \<times> nat) outcome" where
  "unmarshal_loop buff cnt ret i off =
     (let n = length buff in
      if off < n then
        if off + 2 > n then Err ErrUnmarshal
        else
          let ll = unat (Uint16 (go_slice buff off (off + 2)));
              off1 = off + 2
          in if off1 + ll > n then Err ErrUnmarshal
             else if length ret \<le> i then Panic IndexOutOfRange
             else
               let ret' = ret[i := \<lparr>Data = go_slice buff off1 (off1 + ll)\<rparr>];
                   off2 = off1 + ll
               in if i + 1 = cnt then Ok (ret', off2)
                  else unmarshal_loop buff cnt ret' (i + 1) off2
      else Ok (ret, off))"
  by pat_completeness auto
termination
  by (relation "measure (\<lambda>(buff, cnt, ret, i, off). length buff - off)") auto

declare unmarshal_loop.simps [simp del]

definition Unmarshal :: "byte list \<Rightarrow> int \<Rightarrow> Message list outcome" where
  "Unmarshal buff cnt =
     (if cnt = 0 then Ok []
      else if cnt < 0 then Panic MakeSliceLen
      else
        bind_outcome
          (unmarshal_loop buff (nat cnt) (replicate (nat cnt) \<lparr>Data = []\<rparr>) 0 0)
          (\<lambda>(ret, off). if off \<noteq> length buff then Err ErrUnmarshal else Ok ret))"

fun marshal_loop ::
  "byte list \<Rightarrow> Message list \<Rightarrow> nat \<Rightarrow> nat \<Rightarrow> nat \<times> nat \<times> byte list" where
  "marshal_loop buff [] msgCnt bufLen = (msgCnt, bufLen, buff)"
| "marshal_loop buff (msg # msgs) msgCnt bufLen =
     (let mLen = length (Data msg) in
      if bufLen + 2 + mLen > length buff then (msgCnt, bufLen, buff)
      else
        let buff1 = put_slice buff bufLen (bufLen + 2) (PutUint16 (of_nat mLen));
            bufLen1 = bufLen + 2;
            buff2 = (if mLen > 0 then put_slice buff1 bufLen1 (bufLen1 + mLen) (Data msg) else buff1);
            bufLen2 = (if mLen > 0 then bufLen1 + mLen else bufLen1)
        in marshal_loop buff2 msgs (msgCnt + 1) bufLen2)"

definition Marshal :: "byte list \<Rightarrow> Message list \<Rightarrow> nat \<times> nat \<times> byte list" where
  "Marshal buff msgs = marshal_loop buff msgs 0 0"

subsection \<open>Reference forms\<close>

text \<open>
  The wire form of a message block and of a list of blocks, and the reference for what
  fits into a buffer: the longest prefix whose blocks are at most \<open>room\<close> bytes.
\<close>

definition block :: "Message \<Rightarrow> byte list" where
  "block m = PutUint16 (of_nat (length (Data m))) @ Data m"

definition blocks :: "Message list \<Rightarrow> byte list" where
  "blocks ms = concat (map block ms)"

definition short_msgs :: "Message list \<Rightarrow> bool" where
  "short_msgs ms \<longleftrightarrow> list_all (\<lambda>m. length (Data m) < 65536) ms"

fun fitting :: "nat \<Rightarrow> Message list \<Rightarrow> Message list" where
  "fitting room [] = []"
| "fitting room (m # ms) =
     (if length (Data m) + 2 \<le> room then m # fitting (room - (length (Data m) + 2)) ms else [])"

text \<open>A session as the header carries it, and what \<open>DecodeHead\<close> gives back for it.\<close>

definition pad_session :: "byte list \<Rightarrow> byte list" where
  "pad_session s = take 10 (s @ replicate 10 blank)"

definition good_session :: "byte list \<Rightarrow> bool" where
  "good_session s \<longleftrightarrow> s = [] \<or> 2 \<le> length s \<and> length s \<le> 10 \<and> last s \<noteq> blank"

text \<open>A recursive-descent reader of at most \<open>k\<close> blocks, the reference for the loop.\<close>

fun read_blocks :: "nat \<Rightarrow> byte list \<Rightarrow> (Message list \<times> byte list) option" where
  "read_blocks 0 bs = Some ([], bs)"
| "read_blocks (Suc k) bs =
     (if bs = [] then Some ([], [])
      else if length bs < 2 then None
      else
        let ll = unat (Uint16 (take 2 bs)); rest = drop 2 bs
        in if length rest < ll then None
           else
             (case read_blocks k (drop ll rest) of
                None \<Rightarrow> None
              | Some (ms, rest') \<Rightarrow> Some (\<lparr>Data = take ll rest\<rparr> # ms, rest')))"

subsection \<open>Lemmas on the header\<close>

lemma length_pad_session [simp]: "length (pad_session s) = 10"
  by (simp add: pad_session_def)

lemma EncodeHead_Ok:
  assumes "20 \<le> length buff"
  shows "EncodeHead buff h =
    Ok (pad_session (Session h) @ PutUint64 (SeqNo h) @ PutUint16 (MessageCnt h) @ drop 20 buff)"
proof -
  have 1: "fold (\<lambda>i b. b[i := blank]) [0..<10] buff = replicate 10 blank @ drop 10 buff"
    using assms by (intro fold_fill) simp
  have 2: "put_slice (replicate 10 blank @ drop 10 buff) 0 10 (Session h)
      = pad_session (Session h) @ drop 10 buff"
    by (simp add: put_slice_def go_slice_def go_copy_def pad_session_def take_append drop_replicate)
  have 3: "put_slice (pad_session (Session h) @ drop 10 buff) 10 18 (PutUint64 (SeqNo h))
      = pad_session (Session h) @ PutUint64 (SeqNo h) @ drop 18 buff"
    using assms by (subst put_slice_exact) auto
  have 4: "put_slice (pad_session (Session h) @ PutUint64 (SeqNo h) @ drop 18 buff) 18 20
      (PutUint16 (MessageCnt h))
      = pad_session (Session h) @ PutUint64 (SeqNo h) @ PutUint16 (MessageCnt h) @ drop 20 buff"
    using assms by (subst put_slice_exact) auto
  show ?thesis
    using assms by (simp only: EncodeHead_def headSize_def Let_def 1 2 3 4) simp
qed

lemma EncodeHead_Err: "length buff < 20 \<Longrightarrow> EncodeHead buff h = Err ErrTooShort"
  by (simp add: EncodeHead_def headSize_def)

lemma trim_loop_take: "i < k \<Longrightarrow> trim_loop (take k buff) i = trim_loop buff i"
  by (induction i) auto

lemma trim_loop_le: "trim_loop buff i \<le> Suc i"
  by (induction i) auto

lemma DecodeHead_Ok:
  assumes "length p = 10"
  shows "DecodeHead (p @ PutUint64 q @ PutUint16 c @ rest) =
    Ok \<lparr>Session = take (trim_loop p 9) p, SeqNo = q, MessageCnt = c\<rparr>"
proof -
  let ?b = "p @ PutUint64 q @ PutUint16 c @ rest"
  have t: "trim_loop ?b 9 = trim_loop p 9"
    using trim_loop_take [of 9 10 ?b] assms by simp
  have "trim_loop p 9 \<le> 10" using trim_loop_le [of p 9] by simp
  then have "go_slice ?b 0 (trim_loop ?b 9) = take (trim_loop p 9) p"
    using assms by (simp add: t go_slice_def)
  moreover have "go_slice ?b 10 18 = PutUint64 q" using assms by simp
  moreover have "go_slice ?b 18 20 = PutUint16 c"
    using assms by (simp add: slice_append_front go_slice_def)
  ultimately show ?thesis
    using assms by (simp add: DecodeHead_def headSize_def)
qed

text \<open>
  What the loop computes: the bytes up to the last one that is not a blank, except that it
  never looks at byte 0, so that a single leading byte is dropped.
\<close>

definition trim_right :: "byte list \<Rightarrow> byte list" where
  "trim_right p = rev (dropWhile (\<lambda>b. b = blank) (rev p))"

lemma trim_right_snoc: "trim_right (p @ [x]) = (if x = blank then trim_right p else p @ [x])"
  by (simp add: trim_right_def)

lemma length_trim_right_le: "length (trim_right p) \<le> length p"
  using length_dropWhile_le [of "\<lambda>b. b = blank" "rev p"] by (simp add: trim_right_def)

lemma take_trim_loop:
  "i < length p \<Longrightarrow> take (trim_loop p i) p =
     (if length (trim_right (take (Suc i) p)) \<le> 1 then [] else trim_right (take (Suc i) p))"
proof (induction i)
  case 0
  then show ?case using length_trim_right_le [of "take 1 p"] by auto
next
  case (Suc i)
  have "trim_right (take (Suc (Suc i)) p) =
    (if p ! Suc i = blank then trim_right (take (Suc i) p) else take (Suc (Suc i)) p)"
    using Suc.prems by (simp add: take_Suc_conv_app_nth [of "Suc i"] trim_right_snoc)
  with Suc show ?case by auto
qed

lemma trim_right_pad:
  assumes "s = [] \<or> last s \<noteq> blank" "length s \<le> 10"
  shows "trim_right (pad_session s) = s"
proof -
  have "pad_session s = s @ replicate (10 - length s) blank"
    using assms(2) by (simp add: pad_session_def)
  moreover have "trim_right (s @ replicate n blank) = s" for n
  proof (induction n)
    case 0
    then show ?case using assms(1) by (cases s rule: rev_cases) (auto simp: trim_right_def)
  next
    case (Suc n)
    then show ?case
      using trim_right_snoc [of "s @ replicate n blank" blank]
      by (simp flip: replicate_append_same)
  qed
  ultimately show ?thesis by simp
qed

subsection \<open>Lemmas on message blocks\<close>

lemma length_block [simp]: "length (block m) = length (Data m) + 2"
  by (simp add: block_def)

lemma blocks_simps [simp]:
  "blocks [] = []" "blocks (m # ms) = block m @ blocks ms"
  by (simp_all add: blocks_def)

lemma blocks_append [simp]: "blocks (ms @ ns) = blocks ms @ blocks ns"
  by (simp add: blocks_def)

lemma short_msgs_simps [simp]:
  "short_msgs []" "short_msgs (m # ms) \<longleftrightarrow> length (Data m) < 65536 \<and> short_msgs ms"
  by (simp_all add: short_msgs_def)

lemma short_msgs_subset: "short_msgs ms \<Longrightarrow> set ns \<subseteq> set ms \<Longrightarrow> short_msgs ns"
  by (auto simp: short_msgs_def list_all_iff)

lemma read_blocks_blocks:
  assumes "short_msgs ms" "length ms \<le> k" "length ms = k \<or> rest = []"
  shows "read_blocks k (blocks ms @ rest) = Some (ms, rest)"
  using assms
proof (induction ms arbitrary: k)
  case Nil
  then show ?case by (cases k) auto
next
  case (Cons m ms)
  then obtain k' where k: "k = Suc k'" by (cases k) auto
  have "unat (Uint16 (PutUint16 (of_nat (length (Data m))))) = length (Data m)"
    using Cons.prems by (simp add: unat_of_nat_u16)
  with Cons k show ?case by (simp add: block_def)
qed

lemma read_blocks_Some:
  assumes "read_blocks k bs = Some (ms, rest)"
  shows "bs = blocks ms @ rest \<and> short_msgs ms \<and> length ms \<le> k \<and> (length ms = k \<or> rest = [])"
  using assms
proof (induction k bs arbitrary: ms rest rule: read_blocks.induct)
  case (1 bs)
  then show ?case by simp
next
  case (2 k bs)
  show ?case
  proof (cases "bs = []")
    case True
    with "2.prems" show ?thesis by auto
  next
    case False
    define ll where "ll = unat (Uint16 (take 2 bs))"
    from False "2.prems" obtain ms' where
      len: "2 \<le> length bs" "ll \<le> length (drop 2 bs)"
      and rec: "read_blocks k (drop ll (drop 2 bs)) = Some (ms', rest)"
      and ms: "ms = \<lparr>Data = take ll (drop 2 bs)\<rparr> # ms'"
      by (auto simp: ll_def Let_def split: if_splits option.splits)
    have "drop ll (drop 2 bs) = blocks ms' @ rest \<and> short_msgs ms' \<and> length ms' \<le> k
        \<and> (length ms' = k \<or> rest = [])"
      using "2.IH" [of ll "drop 2 bs"] rec len False by (simp add: ll_def)
    moreover have "PutUint16 (of_nat ll) = take 2 bs"
      using len PutUint16_Uint16 [of "take 2 bs"] by (simp add: ll_def)
    moreover have "ll < 65536" by (simp add: ll_def)
    moreover have "bs = take 2 bs @ take ll (drop 2 bs) @ drop ll (drop 2 bs)"
      by (simp only: append_take_drop_id)
    ultimately show ?thesis using len by (simp add: ms block_def)
  qed
qed

lemma unmarshal_loop_read_blocks:
  assumes "i < cnt" "length ret = cnt" "off \<le> length buff"
  shows "unmarshal_loop buff cnt ret i off =
    (case read_blocks (cnt - i) (drop off buff) of
       None \<Rightarrow> Err ErrUnmarshal
     | Some (ms, rest) \<Rightarrow>
         Ok (take i ret @ ms @ drop (i + length ms) ret, length buff - length rest))"
  using assms
proof (induction buff cnt ret i off rule: unmarshal_loop.induct)
  case (1 buff cnt ret i off)
  define ll where "ll = unat (Uint16 (take 2 (drop off buff)))"
  obtain k where k: "cnt - i = Suc k" using "1.prems" by (cases "cnt - i") auto
  show ?case
  proof (cases "off < length buff \<and> off + 2 \<le> length buff \<and> off + 2 + ll \<le> length buff")
    case False
    then show ?thesis
      using "1.prems" k
      by (auto simp: unmarshal_loop.simps [of buff cnt ret i off] ll_def slice2 Let_def split: if_splits)
  next
    case True
    define m where "m = \<lparr>Data = take ll (drop (off + 2) buff)\<rparr>"
    have sl: "go_slice buff off (off + 2) = take 2 (drop off buff)"
      "go_slice buff (off + 2) (off + 2 + ll) = Data m"
      using True by (simp_all add: go_slice_def m_def)
    have read: "read_blocks (cnt - i) (drop off buff) =
      (case read_blocks k (drop (off + 2 + ll) buff) of
         None \<Rightarrow> None | Some (ms, rest) \<Rightarrow> Some (m # ms, rest))"
      using True by (auto simp: k ll_def m_def Let_def add.commute split: option.split)
    show ?thesis
    proof (cases "i + 1 = cnt")
      case last: True
      then have "k = 0" using k by simp
      with last True sl "1.prems" show ?thesis
        by (simp add: read unmarshal_loop.simps [of buff cnt ret i off] ll_def [symmetric] m_def upd_conv_take_nth_drop)
    next
      case more: False
      then have "i + 1 < cnt" "cnt - (i + 1) = k" using "1.prems" k by auto
      moreover have "unmarshal_loop buff cnt ret i off =
          unmarshal_loop buff cnt (ret[i := m]) (i + 1) (off + 2 + ll)"
        using more True sl "1.prems"
        by (simp add: unmarshal_loop.simps [of buff cnt ret i off] ll_def [symmetric] m_def)
      ultimately show ?thesis
        using "1.IH" [of "length buff" ll "off + 2" "ret[i := m]" "off + 2 + ll"] True sl more "1.prems"
        by (auto simp: read ll_def m_def take_Suc_conv_app_nth split: option.split)
    qed
  qed
qed

lemma marshal_loop_fitting:
  assumes "bufLen \<le> length buff"
  shows "marshal_loop buff msgs msgCnt bufLen =
    (let f = fitting (length buff - bufLen) msgs; e = bufLen + length (blocks f)
     in (msgCnt + length f, e, take bufLen buff @ blocks f @ drop e buff))"
  using assms
proof (induction msgs arbitrary: buff msgCnt bufLen)
  case Nil
  then show ?case by simp
next
  case (Cons m msgs)
  let ?k = "length (Data m)"
  show ?case
  proof (cases "bufLen + 2 + ?k \<le> length buff")
    case False
    then show ?thesis using Cons.prems by (simp add: Let_def)
  next
    case True
    define buff2 where "buff2 = take bufLen buff @ block m @ drop (bufLen + 2 + ?k) buff"
    have put1: "put_slice buff bufLen (bufLen + 2) (PutUint16 (of_nat ?k)) =
        take bufLen buff @ PutUint16 (of_nat ?k) @ drop (bufLen + 2) buff"
      using True by (subst put_slice_exact) auto
    have put2: "put_slice (take bufLen buff @ PutUint16 (of_nat ?k) @ drop (bufLen + 2) buff)
        (bufLen + 2) (bufLen + 2 + ?k) (Data m) = buff2"
      using True by (subst put_slice_exact) (auto simp: buff2_def block_def add.commute)
    have len: "length buff2 = length buff" using True by (simp add: buff2_def)
    have "marshal_loop buff (m # msgs) msgCnt bufLen =
        marshal_loop buff2 msgs (msgCnt + 1) (bufLen + 2 + ?k)"
      using True put1 put2 by (auto simp: Let_def buff2_def block_def)
    also have "\<dots> = (let f = fitting (length buff - (bufLen + 2 + ?k)) msgs;
          e = bufLen + 2 + ?k + length (blocks f)
        in (msgCnt + 1 + length f, e, take (bufLen + 2 + ?k) buff2 @ blocks f @ drop e buff2))"
      using Cons.IH [of "bufLen + 2 + ?k" buff2 "msgCnt + 1"] True by (simp add: len)
    also have "take (bufLen + 2 + ?k) buff2 = take bufLen buff @ block m"
      using True by (simp add: buff2_def)
    finally show ?thesis
      using True
      by (simp add: Let_def buff2_def add.commute add.left_commute)
  qed
qed

lemma Unmarshal_pos:
  assumes "0 < c"
  shows "Unmarshal buff (int c) =
    (case read_blocks c buff of
       Some (ms, []) \<Rightarrow> Ok (ms @ replicate (c - length ms) \<lparr>Data = []\<rparr>)
     | _ \<Rightarrow> Err ErrUnmarshal)"
proof -
  have "length rest \<le> length buff" if "read_blocks c buff = Some (ms, rest)" for ms rest
    using read_blocks_Some [OF that] by auto
  then show ?thesis
    using assms unmarshal_loop_read_blocks [of 0 c "replicate c \<lparr>Data = []\<rparr>" 0 buff]
    by (fastforce simp: Unmarshal_def split: option.split list.split)
qed

lemma Unmarshal_OkD:
  assumes "Unmarshal buff (int c) = Ok r" "0 < c"
  obtains ms where "buff = blocks ms" "short_msgs ms" "length ms \<le> c"
    "r = ms @ replicate (c - length ms) \<lparr>Data = []\<rparr>"
  using assms read_blocks_Some [of c buff]
  by (fastforce simp: Unmarshal_pos split: option.splits list.splits)

lemma Unmarshal_blocks:
  assumes "short_msgs ms" "length ms \<le> c" "0 < c"
  shows "Unmarshal (blocks ms) (int c) = Ok (ms @ replicate (c - length ms) \<lparr>Data = []\<rparr>)"
  using assms read_blocks_blocks [of ms c "[]"] by (simp add: Unmarshal_pos)

lemma Unmarshal_cases:
  "(\<exists>r. Unmarshal buff (int c) = Ok r \<and> length r = c) \<or> Unmarshal buff (int c) = Err ErrUnmarshal"
proof (cases "c = 0")
  case True
  then show ?thesis by (simp add: Unmarshal_def)
next
  case False
  then have "Unmarshal buff (int c) =
    (case read_blocks c buff of
       Some (ms, []) \<Rightarrow> Ok (ms @ replicate (c - length ms) \<lparr>Data = []\<rparr>)
     | _ \<Rightarrow> Err ErrUnmarshal)" by (simp add: Unmarshal_pos)
  then show ?thesis
    using read_blocks_Some [of c buff] by (auto split: option.splits list.splits)
qed

lemma Marshal_eq:
  "Marshal buff msgs =
    (let f = fitting (length buff) msgs; e = length (blocks f)
     in (length f, e, blocks f @ drop e buff))"
  using marshal_loop_fitting [of 0 buff msgs 0] by (simp add: Marshal_def Let_def)

lemma fitting_prefix: "fitting room ms = take (length (fitting room ms)) ms"
  by (induction room ms rule: fitting.induct) auto

lemma length_blocks_fitting: "length (blocks (fitting room ms)) \<le> room"
  by (induction room ms rule: fitting.induct) auto

lemma fitting_maximal:
  assumes "length (blocks (take k ms)) \<le> room" "k \<le> length ms"
  shows "k \<le> length (fitting room ms)"
  using assms
proof (induction room ms arbitrary: k rule: fitting.induct)
  case (1 room)
  then show ?case by simp
next
  case (2 room m ms)
  then show ?case by (cases k) auto
qed

lemma short_msgs_take: "short_msgs ms \<Longrightarrow> short_msgs (take k ms)"
  by (rule short_msgs_subset) (auto dest: in_set_takeD)

lemma short_msgs_fitting: "short_msgs ms \<Longrightarrow> short_msgs (fitting room ms)"
  by (subst fitting_prefix) (rule short_msgs_take)

lemma Unmarshal_Marshal:
  assumes "short_msgs msgs" "Marshal buff msgs = (c, l, b)"
  shows "Unmarshal (take l b) (int c) = Ok (take c msgs)"
proof (cases "c = 0")
  case True
  then show ?thesis by (simp add: Unmarshal_def)
next
  case False
  let ?f = "fitting (length buff) msgs"
  from assms(2) have eqs: "c = length ?f" "l = length (blocks ?f)" "b = blocks ?f @ drop l buff"
    by (auto simp: Marshal_eq Let_def)
  then have "take c msgs = ?f" using fitting_prefix [of "length buff" msgs] by simp
  moreover have "Unmarshal (blocks ?f) (int c) = Ok ?f"
    using Unmarshal_blocks [of ?f c] short_msgs_fitting [OF assms(1)] False eqs by simp
  ultimately show ?thesis using eqs by simp
qed

lemma good_session_trim:
  assumes "good_session s"
  shows "take (trim_loop (pad_session s) 9) (pad_session s) = s"
  using assms take_trim_loop [of 9 "pad_session s"] trim_right_pad [of s]
  by (auto simp: good_session_def)

lemma DecodeHead_EncodeHead:
  assumes "good_session (Session h)" "EncodeHead buff h = Ok b"
  shows "DecodeHead (take 20 b @ rest) = Ok h"
proof -
  have "20 \<le> length buff" using assms(2) by (simp add: EncodeHead_def headSize_def split: if_splits)
  then have "take 20 b = pad_session (Session h) @ PutUint64 (SeqNo h) @ PutUint16 (MessageCnt h)"
    using assms(2) by (simp add: EncodeHead_Ok) auto
  then show ?thesis
    using DecodeHead_Ok [of "pad_session (Session h)" "SeqNo h" "MessageCnt h" rest]
      good_session_trim [OF assms(1)] by simp
qed

subsection \<open>The interface of the codec\<close>

text \<open>
  What a party that builds and reads packets relies on: the header and the blocks decode to
  what was encoded. The lemma of the locale is about a whole packet.
\<close>

locale framing =
  fixes enc_head :: "byte list \<Rightarrow> Header \<Rightarrow> byte list outcome"
    and dec_head :: "byte list \<Rightarrow> Header outcome"
    and marshal :: "byte list \<Rightarrow> Message list \<Rightarrow> nat \<times> nat \<times> byte list"
    and unmarshal :: "byte list \<Rightarrow> int \<Rightarrow> Message list outcome"
  assumes enc_total: "20 \<le> length buff \<Longrightarrow> \<exists>b. enc_head buff h = Ok b \<and> length b = length buff"
    and dec_enc: "good_session (Session h) \<Longrightarrow> enc_head buff h = Ok b \<Longrightarrow>
      dec_head (take 20 b @ rest) = Ok h"
    and unmarshal_marshal: "short_msgs ms \<Longrightarrow> marshal buff ms = (c, l, b) \<Longrightarrow>
      unmarshal (take l b) (int c) = Ok (take c ms)"
begin

lemma packet_roundtrip:
  assumes "20 \<le> length hb" "good_session (Session h)" "short_msgs ms"
    and "marshal mb ms = (c, l, b)" "unat (MessageCnt h) = c"
  shows "\<exists>p. enc_head hb h = Ok p \<and>
    (let pkt = take 20 p @ take l b
     in dec_head pkt = Ok h \<and> unmarshal (drop 20 pkt) (int (unat (MessageCnt h))) = Ok (take c ms))"
proof -
  obtain p where p: "enc_head hb h = Ok p" "length p = length hb"
    using enc_total [OF assms(1)] by blast
  have "dec_head (take 20 p @ take l b) = Ok h" using assms(2) p(1) by (rule dec_enc)
  moreover have "drop 20 (take 20 p @ take l b) = take l b" using p(2) assms(1) by simp
  ultimately show ?thesis
    using p(1) unmarshal_marshal [OF assms(3,4)] assms(5) by (simp add: Let_def)
qed

end

interpretation mold: framing EncodeHead DecodeHead Marshal Unmarshal
proof unfold_locales
  show "\<exists>b. EncodeHead buff h = Ok b \<and> length b = length buff" if "20 \<le> length buff" for buff h
    using that by (simp add: EncodeHead_Ok)
qed (auto intro: DecodeHead_EncodeHead Unmarshal_Marshal)

subsection \<open>Properties\<close>

text \<open>
  C16. Header round trip: for a session of two to ten bytes that does not end in a blank (or an
  empty one) and a buffer of at least 20 bytes, \<open>EncodeHead\<close> succeeds, changes only the first
  20 bytes, and \<open>DecodeHead\<close> of the buffer gives the header back.
\<close>

theorem header_roundtrip:
  assumes "good_session (Session h)" "20 \<le> length buff"
  shows "\<exists>b. EncodeHead buff h = Ok b \<and> length b = length buff \<and>
    drop 20 b = drop 20 buff \<and> DecodeHead b = Ok h"
proof -
  obtain b where b: "EncodeHead buff h = Ok b" "length b = length buff" "drop 20 b = drop 20 buff"
    using assms(2) by (simp add: EncodeHead_Ok)
  have "DecodeHead b = Ok h" using DecodeHead_EncodeHead [OF assms(1) b(1), of "drop 20 b"] by simp
  with b show ?thesis by blast
qed

definition head0 :: Header where
  "head0 = \<lparr>Session = [116, 101, 115, 116, 48], SeqNo = 1, MessageCnt = 2\<rparr>"

theorem header_roundtrip_witness:
  "good_session (Session head0) \<and>
   EncodeHead (replicate 20 0) head0 =
     Ok [116, 101, 115, 116, 48, 32, 32, 32, 32, 32, 0, 0, 0, 0, 0, 0, 0, 1, 0, 2] \<and>
   (\<exists>b. EncodeHead (replicate 20 0) head0 = Ok b \<and> DecodeHead b = Ok head0)"
proof -
  have g: "good_session (Session head0)" by (simp add: good_session_def head0_def blank_def)
  have "EncodeHead (replicate 20 0) head0 =
     Ok [116, 101, 115, 116, 48, 32, 32, 32, 32, 32, 0, 0, 0, 0, 0, 0, 0, 1, 0, 2]"
    by code_simp
  with g header_roundtrip [OF g, of "replicate 20 0"] show ?thesis by auto
qed

text \<open>
  C38. \<open>DecodeHead\<close> on every buffer: \<open>errTooShort\<close> below 20 bytes, and otherwise the big-endian
  fields at 10 and 18 and a session that is the first ten bytes with their trailing blanks
  removed, except that what is left is dropped when it is a single byte: the loop computes
  \<open>bytes.TrimRight\<close> on every other input.
\<close>

theorem DecodeHead_reference:
  "DecodeHead buff =
    (if length buff < 20 then Err ErrTooShort
     else Ok \<lparr>Session = (let t = trim_right (take 10 buff) in if length t \<le> 1 then [] else t),
              SeqNo = Uint64 (take 8 (drop 10 buff)),
              MessageCnt = Uint16 (take 2 (drop 18 buff))\<rparr>)"
proof -
  have "go_slice buff 0 (trim_loop buff 9) = take (trim_loop buff 9) buff" by (simp add: go_slice_def)
  then show ?thesis
    using take_trim_loop [of 9 buff]
    by (simp add: DecodeHead_def headSize_def Let_def go_slice_def)
qed

text \<open>
  A session of one byte does not survive the header: it is encoded and decoded as the empty
  session, because the loop of \<open>DecodeHead\<close> stops before index 0.
\<close>

theorem one_byte_session_lost:
  assumes "Session h = [x]" "20 \<le> length buff"
  shows "\<exists>b. EncodeHead buff h = Ok b \<and> DecodeHead b = Ok (h\<lparr>Session := []\<rparr>)"
proof -
  have "length (trim_right (pad_session [x])) \<le> 1"
    using trim_right_pad [of "[x]"] trim_right_pad [of "[]"]
    by (cases "x = blank") (auto simp: pad_session_def numeral_eq_Suc)
  then have "take (trim_loop (pad_session [x]) 9) (pad_session [x]) = []"
    using take_trim_loop [of 9 "pad_session [x]"] by simp
  with assms show ?thesis
    using DecodeHead_Ok [of "pad_session [x]" "SeqNo h" "MessageCnt h" "drop 20 buff"]
    by (simp add: EncodeHead_Ok)
qed

theorem one_byte_session_lost_witness:
  "\<exists>b. EncodeHead (replicate 20 0) \<lparr>Session = [65], SeqNo = 7, MessageCnt = 0\<rparr> = Ok b \<and>
    DecodeHead b = Ok \<lparr>Session = [], SeqNo = 7, MessageCnt = 0\<rparr>"
  using one_byte_session_lost
    [of "\<lparr>Session = [65], SeqNo = 7, MessageCnt = 0\<rparr>" 65 "replicate 20 0"] by simp

text \<open>
  C18. What \<open>Unmarshal\<close> accepts, exactly: for a positive count it succeeds if and only if the
  whole buffer is the wire form of at most that many messages of less than 64 KiB, and then it
  returns these messages followed by empty messages up to the count.
\<close>

theorem Unmarshal_accepts_exactly:
  "Unmarshal buff (int (Suc c)) = Ok r \<longleftrightarrow>
    (\<exists>ms. buff = blocks ms \<and> short_msgs ms \<and> length ms \<le> Suc c \<and>
       r = ms @ replicate (Suc c - length ms) \<lparr>Data = []\<rparr>)"
  using Unmarshal_OkD [of buff "Suc c" r] Unmarshal_blocks [of _ "Suc c"] by (metis zero_less_Suc)

text \<open>
  C19. \<open>Marshal\<close> is greedy and local: it writes the wire form of a prefix of the messages, that
  prefix is the longest whose blocks fit into the buffer, and the rest of the buffer is unchanged.
\<close>

theorem Marshal_greedy:
  assumes "Marshal buff msgs = (c, l, b)"
  shows "c \<le> length msgs \<and> l = length (blocks (take c msgs)) \<and> l \<le> length buff \<and>
    b = blocks (take c msgs) @ drop l buff \<and>
    (\<forall>k \<le> length msgs. length (blocks (take k msgs)) \<le> length buff \<longrightarrow> k \<le> c)"
proof -
  let ?f = "fitting (length buff) msgs"
  from assms have eqs: "c = length ?f" "l = length (blocks ?f)" "b = blocks ?f @ drop l buff"
    by (auto simp: Marshal_eq Let_def)
  have "take c msgs = ?f" using fitting_prefix [of "length buff" msgs] eqs by simp
  moreover have "c \<le> length msgs" using eqs fitting_prefix [of "length buff" msgs]
    by (metis length_take min.cobounded1)
  ultimately show ?thesis
    using eqs length_blocks_fitting [of "length buff" msgs] fitting_maximal [of _ msgs "length buff"]
    by auto
qed

theorem Marshal_greedy_witness:
  "Marshal (replicate 6 0) [\<lparr>Data = [7, 8]\<rparr>, \<lparr>Data = [9]\<rparr>] = (1, 4, [0, 2, 7, 8, 0, 0]) \<and>
   [0, 2, 7, 8, 0, 0] = blocks (take 1 [\<lparr>Data = [7, 8]\<rparr>, \<lparr>Data = [9]\<rparr>]) @ drop 4 (replicate 6 0) \<and>
   \<not> length (blocks (take 2 [\<lparr>Data = [7, 8]\<rparr>, \<lparr>Data = [9]\<rparr>])) \<le> 6"
proof -
  have m: "Marshal (replicate 6 0) [\<lparr>Data = [7, 8]\<rparr>, \<lparr>Data = [9]\<rparr>] = (1, 4, [0, 2, 7, 8, 0, 0])"
    by code_simp
  show ?thesis using m Marshal_greedy [OF m] by (elim conjE allE [of _ 2]) force
qed

text \<open>
  C17. Message round trip: whatever \<open>Marshal\<close> wrote, \<open>Unmarshal\<close> of the written part with the
  returned count gives back exactly the messages that were packed, for messages of less than
  64 KiB.
\<close>

theorem Unmarshal_Marshal_roundtrip:
  assumes "short_msgs msgs" "Marshal buff msgs = (c, l, b)"
  shows "Unmarshal (take l b) (int c) = Ok (take c msgs)"
  using assms by (rule mold.unmarshal_marshal)

theorem Unmarshal_Marshal_roundtrip_witness:
  "Unmarshal [0, 2, 7, 8] 1 = Ok [\<lparr>Data = [7, 8]\<rparr>]"
proof -
  have m: "Marshal (replicate 6 0) [\<lparr>Data = [7, 8]\<rparr>, \<lparr>Data = [9]\<rparr>] = (1, 4, [0, 2, 7, 8, 0, 0])"
    by code_simp
  show ?thesis using Unmarshal_Marshal_roundtrip [OF _ m] by simp
qed

end
