(* ===== verification/Cache_Spec.thy ===== *)
theory Cache_Spec
  imports Mold_Codec
begin

section \<open>The interface of the message cache\<close>

text \<open>
  What the client relies on of its cache of messages that arrived ahead of their turn: a
  map from sequence numbers to messages with an update that reports whether it replaced
  something, a test, and a merge that returns the maximal run of consecutive messages from a
  sequence number. A pointer to a message is a \<open>Message option\<close>, with \<open>None\<close> for nil.

  \<open>is_run f n ms\<close> says that \<open>ms\<close> is the maximal run of \<open>f\<close> at \<open>n\<close>. \<open>store_loop\<close> is
  the loop of \<open>Client.storeCache\<close> (client.go), over the cache's update operation; its
  effect is proved once, in the locale.
\<close>

definition is_run :: "(nat \<Rightarrow> 'a option) \<Rightarrow> nat \<Rightarrow> 'a list \<Rightarrow> bool" where
  "is_run f n ms \<longleftrightarrow> (\<forall>i < length ms. f (n + i) = Some (ms ! i)) \<and> f (n + length ms) = None"

lemma is_run_Nil [simp]: "is_run f n [] \<longleftrightarrow> f n = None"
  by (simp add: is_run_def)

lemma is_run_Cons [simp]: "is_run f n (m # ms) \<longleftrightarrow> f n = Some m \<and> is_run f (Suc n) ms"
  by (auto simp: is_run_def nth_Cons' less_Suc_eq_0_disj)

lemma is_run_unique: "is_run f n ms \<Longrightarrow> is_run f n ms' \<Longrightarrow> ms = ms'"
proof (induction ms arbitrary: n ms')
  case Nil
  then show ?case by (cases ms') auto
next
  case (Cons m ms)
  then show ?case by (cases ms') auto
qed

fun store_loop ::
  "(u64 \<Rightarrow> Message option \<Rightarrow> 'c \<Rightarrow> (bool \<times> 'c) outcome) \<Rightarrow>
   Message list \<Rightarrow> u64 \<Rightarrow> bool \<Rightarrow> 'c \<Rightarrow> (bool \<times> u64 \<times> 'c) outcome" where
  "store_loop upset [] seqNo bMerge c = Ok (bMerge, seqNo, c)"
| "store_loop upset (m # ms) seqNo bMerge c =
     bind_outcome (upset seqNo (Some m) c)
       (\<lambda>(r, c'). store_loop upset ms (seqNo + 1) (bMerge \<or> r) c')"

text \<open>The map after a list of messages is stored from an index on.\<close>

definition store_map :: "(nat \<Rightarrow> 'a option) \<Rightarrow> nat \<Rightarrow> 'a list \<Rightarrow> nat \<Rightarrow> 'a option" where
  "store_map f n ms = (\<lambda>k. if n \<le> k \<and> k < n + length ms then Some (ms ! (k - n)) else f k)"

lemma store_map_Nil [simp]: "store_map f n [] = f"
  by (auto simp: store_map_def fun_eq_iff)

lemma store_map_Cons: "store_map f n (m # ms) = store_map (f(n := Some m)) (Suc n) ms"
  by (auto simp: store_map_def fun_eq_iff nth_Cons' Suc_diff_le)

lemma unat_Suc_u64: "Suc (unat s) < 18446744073709551616 \<Longrightarrow> unat ((s :: u64) + 1) = Suc (unat s)"
  by (simp add: unat_word_ariths)

locale seq_cache =
  fixes invar :: "'c \<Rightarrow> bool"
    and lookup :: "'c \<Rightarrow> nat \<Rightarrow> Message option"
    and upset :: "u64 \<Rightarrow> Message option \<Rightarrow> 'c \<Rightarrow> (bool \<times> 'c) outcome"
    and isnil :: "u64 \<Rightarrow> 'c \<Rightarrow> bool outcome"
    and merge :: "u64 \<Rightarrow> 'c \<Rightarrow> Message list option outcome"
  assumes upset_law: "invar c \<Longrightarrow>
      \<exists>c'. upset s p c = Ok (lookup c (unat s) \<noteq> None, c') \<and> invar c' \<and>
        lookup c' = (lookup c)(unat s := p)"
    and isnil_law: "invar c \<Longrightarrow> isnil s c = Ok (lookup c (unat s) = None)"
    and merge_law: "invar c \<Longrightarrow>
      (if lookup c (unat s) = None then merge s c = Ok None
       else \<exists>ms. merge s c = Ok (Some ms) \<and> is_run (lookup c) (unat s) ms)"
begin

lemma store_loop_total:
  assumes "invar c"
  shows "\<exists>r c'. store_loop upset ms s b c = Ok (r, s + of_nat (length ms), c') \<and> invar c'"
  using assms
proof (induction ms arbitrary: s b c)
  case Nil
  then show ?case by simp
next
  case (Cons m ms)
  obtain c1 where "upset s (Some m) c = Ok (lookup c (unat s) \<noteq> None, c1)" "invar c1"
    using upset_law [OF Cons.prems] by blast
  with Cons.IH [of c1 "s + 1"] show ?case by (fastforce simp: algebra_simps)
qed

lemma store_loop_effect:
  assumes "invar c" "unat s + length ms \<le> 18446744073709551616"
  shows "\<exists>c'. store_loop upset ms s b c =
      Ok (b \<or> (\<exists>i < length ms. lookup c (unat s + i) \<noteq> None), s + of_nat (length ms), c') \<and>
    invar c' \<and> lookup c' = store_map (lookup c) (unat s) ms"
  using assms
proof (induction ms arbitrary: s b c)
  case Nil
  then show ?case by simp
next
  case (Cons m ms)
  let ?r = "lookup c (unat s) \<noteq> None"
  obtain c1 where c1: "upset s (Some m) c = Ok (?r, c1)" "invar c1"
      "lookup c1 = (lookup c)(unat s := Some m)"
    using upset_law [OF Cons.prems(1)] by blast
  show ?case
  proof (cases ms)
    case Nil
    with c1 show ?thesis by (auto simp: store_map_Cons)
  next
    case (Cons m' ms')
    then have u: "unat (s + 1) = Suc (unat s)" using Cons.prems(2) by (intro unat_Suc_u64) simp
    then have "unat (s + 1) + length ms \<le> 18446744073709551616" using Cons.prems(2) by simp
    from Cons.IH [OF c1(2) this, of "b \<or> ?r"] obtain c' where
      c': "store_loop upset ms (s + 1) (b \<or> ?r) c1 =
          Ok ((b \<or> ?r) \<or> (\<exists>i < length ms. lookup c1 (unat (s + 1) + i) \<noteq> None),
              s + 1 + of_nat (length ms), c')"
        "invar c'" "lookup c' = store_map (lookup c1) (unat (s + 1)) ms"
      by blast
    have "(\<exists>i < length (m # ms). lookup c (unat s + i) \<noteq> None) \<longleftrightarrow>
        ?r \<or> (\<exists>i < length ms. lookup c1 (unat (s + 1) + i) \<noteq> None)"
      using c1(3) u by (auto simp: less_Suc_eq_0_disj)
    with c1 c' u show ?thesis by (simp add: store_map_Cons algebra_simps)
  qed
qed

end

end
