(* ===== verification/Msg_Cache.thy ===== *)
theory Msg_Cache
  imports Cache_Spec
begin

section \<open>The paged message cache (msgCache.go)\<close>

text \<open>
  A growing array of pages, each an array of 2^20 pointers to messages. A page is a
  function from offsets to pointers; an index out of the page or of the page array is a panic.
  The loops of \<open>Upset\<close> (growing), \<open>getCount\<close> and \<open>Merge\<close> are recursive functions with
  termination proofs. \<open>cache_ok\<close> is the invariant, \<open>cache_at\<close> the abstraction to a map
  from sequence numbers to messages, and the interpretation of \<open>seq_cache\<close> says that the
  pages implement that map. Allocation does not fail in the model; how many pages the client
  comes to hold is the subject of \<open>Cache_Memory\<close>.
\<close>

subsection \<open>State and constants\<close>

definition maxPageMsg :: nat where
  "maxPageMsg = 1048576"

definition pageShift :: nat where
  "pageShift = 20"

definition pageIncrement :: nat where
  "pageIncrement = 16"

type_synonym msgPage = "nat \<Rightarrow> Message option"

record msgCache =
  nPage :: nat
  maxPageNo :: nat
  msgPages :: "msgPage list"

definition emptyPage :: msgPage where
  "emptyPage = (\<lambda>off. None)"

subsection \<open>Operations\<close>

definition Init :: "msgCache \<Rightarrow> msgCache" where
  "Init mc = mc\<lparr>nPage := pageIncrement, msgPages := replicate pageIncrement emptyPage\<rparr>"

definition page_of :: "u64 \<Rightarrow> nat" where
  "page_of seqNo = unat (drop_bit pageShift seqNo)"

definition off_of :: "u64 \<Rightarrow> nat" where
  "off_of seqNo = unat (seqNo AND of_nat (maxPageMsg - 1))"

text \<open>Reading and writing \<open>mc.msgPages[page][off]\<close>.\<close>

definition page_get :: "msgCache \<Rightarrow> nat \<Rightarrow> nat \<Rightarrow> Message option outcome" where
  "page_get mc page off =
     (if page < length (msgPages mc) \<and> off < maxPageMsg then Ok ((msgPages mc ! page) off)
      else Panic IndexOutOfRange)"

definition page_set :: "msgCache \<Rightarrow> nat \<Rightarrow> nat \<Rightarrow> Message option \<Rightarrow> msgCache" where
  "page_set mc page off p =
     mc\<lparr>msgPages := (msgPages mc)[page := (msgPages mc ! page)(off := p)]\<rparr>"

function grow :: "nat \<Rightarrow> msgCache \<Rightarrow> msgCache" where
  "grow page mc =
     (if nPage mc \<le> page then
        grow page (mc\<lparr>msgPages := msgPages mc @ replicate pageIncrement emptyPage,
                      nPage := nPage mc + pageIncrement\<rparr>)
      else mc)"
  by pat_completeness auto
termination
  by (relation "measure (\<lambda>(page, mc). Suc page - nPage mc)") (auto simp: pageIncrement_def)

declare grow.simps [simp del]

definition Upset :: "u64 \<Rightarrow> Message option \<Rightarrow> msgCache \<Rightarrow> (bool \<times> msgCache) outcome" where
  "Upset seqNo msg mc =
     (let page = page_of seqNo;
          off = off_of seqNo;
          mc1 = (if nPage mc \<le> page then grow page mc else mc);
          mc2 = (if maxPageNo mc1 < page then mc1\<lparr>maxPageNo := page\<rparr> else mc1)
      in bind_outcome (page_get mc2 page off)
           (\<lambda>old. Ok (old \<noteq> None, page_set mc2 page off msg)))"

definition IsNil :: "u64 \<Rightarrow> msgCache \<Rightarrow> bool outcome" where
  "IsNil seqNo mc =
     (let page = page_of seqNo; off = off_of seqNo
      in if nPage mc \<le> page then Ok True
         else bind_outcome (page_get mc page off) (\<lambda>p. if p = None then Ok True else Ok False))"

function getCount :: "msgCache \<Rightarrow> nat \<Rightarrow> nat \<Rightarrow> nat \<Rightarrow> nat outcome" where
  "getCount mc page off res =
     (case page_get mc page off of
        Panic x \<Rightarrow> Panic x
      | Err e \<Rightarrow> Err e
      | Ok None \<Rightarrow> Ok res
      | Ok (Some m) \<Rightarrow>
          if maxPageMsg \<le> off + 1 then
            if nPage mc \<le> page + 1 then Ok (res + 1)
            else getCount mc (page + 1) 0 (res + 1)
          else getCount mc page (off + 1) (res + 1))"
  by pat_completeness auto
termination
  by (relation "measures [\<lambda>(mc, page, off, res). length (msgPages mc) - page,
        \<lambda>(mc, page, off, res). maxPageMsg - off]")
    (auto simp: page_get_def split: if_splits)

function fill_loop ::
  "msgCache \<Rightarrow> nat \<Rightarrow> Message list \<Rightarrow> nat \<Rightarrow> nat \<Rightarrow> nat \<Rightarrow> Message list outcome" where
  "fill_loop mc cnt ret i page off =
     (case page_get mc page off of
        Panic x \<Rightarrow> Panic x
      | Err e \<Rightarrow> Err e
      | Ok None \<Rightarrow> Ok ret
      | Ok (Some m) \<Rightarrow>
          if length ret \<le> i then Panic IndexOutOfRange
          else
            let ret' = ret[i := m]; i' = i + 1
            in if cnt \<le> i' then Ok ret'
               else if maxPageMsg \<le> off + 1 then fill_loop mc cnt ret' i' (page + 1) 0
               else fill_loop mc cnt ret' i' page (off + 1))"
  by pat_completeness auto
termination
  by (relation "measure (\<lambda>(mc, cnt, ret, i, page, off). cnt - i)") auto

declare getCount.simps [simp del]
declare fill_loop.simps [simp del]

definition Merge :: "u64 \<Rightarrow> msgCache \<Rightarrow> Message list option outcome" where
  "Merge seqNo mc =
     (let page = page_of seqNo; off = off_of seqNo
      in if nPage mc \<le> page then Ok None
         else bind_outcome (page_get mc page off) (\<lambda>p.
           if p = None then Ok None
           else bind_outcome (getCount mc page off 0) (\<lambda>cnt.
             if cnt = 0 then Ok (Some [])
             else bind_outcome
               (fill_loop mc cnt (replicate cnt \<lparr>Data = []\<rparr>) 0 page off)
               (\<lambda>ret. Ok (Some ret)))))"

subsection \<open>Invariant and abstraction\<close>

definition cache_ok :: "msgCache \<Rightarrow> bool" where
  "cache_ok mc \<longleftrightarrow>
     length (msgPages mc) = nPage mc \<and> pageIncrement dvd nPage mc \<and> maxPageNo mc < nPage mc"

definition cache_at :: "msgCache \<Rightarrow> nat \<Rightarrow> Message option" where
  "cache_at mc n =
     (if n div maxPageMsg < length (msgPages mc)
      then (msgPages mc ! (n div maxPageMsg)) (n mod maxPageMsg) else None)"

subsection \<open>Addressing\<close>

lemma maxPageMsg_pos [simp]: "0 < maxPageMsg"
  by (simp add: maxPageMsg_def)

lemma page_of_div: "page_of s = unat s div maxPageMsg"
  by (simp add: page_of_def pageShift_def maxPageMsg_def drop_bit_eq_div unat_div_distrib)

lemma off_of_mod: "off_of s = unat s mod maxPageMsg"
proof -
  have "s AND 1048575 = take_bit 20 s"
    using take_bit_eq_mask [of 20 s] by (simp add: mask_eq_exp_minus_1)
  then show ?thesis
    by (simp add: off_of_def maxPageMsg_def take_bit_eq_mod unat_mod_distrib)
qed

lemma off_of_less [simp]: "off_of s < maxPageMsg"
  by (simp add: off_of_mod)

text \<open>The page bound compared as an integer when evaluating: a page has a million slots.\<close>

lemma less_maxPageMsg_code [code_unfold]: "n < maxPageMsg \<longleftrightarrow> int n < 1048576"
  by (simp add: maxPageMsg_def)

lemma maxPageMsg_le_code [code_unfold]: "maxPageMsg \<le> n \<longleftrightarrow> 1048576 \<le> int n"
  by (simp add: maxPageMsg_def)

lemma off_of_code [code]: "off_of s = unat (s AND 1048575)"
  by (simp add: off_of_def maxPageMsg_def)

lemma cache_at_index:
  "off < maxPageMsg \<Longrightarrow>
   cache_at mc (page * maxPageMsg + off) =
     (if page < length (msgPages mc) then (msgPages mc ! page) off else None)"
  by (simp add: cache_at_def)

lemma cache_at_u64:
  "cache_at mc (unat s) =
     (if page_of s < length (msgPages mc) then (msgPages mc ! page_of s) (off_of s) else None)"
  by (simp add: cache_at_def page_of_div off_of_mod)

lemma index_u64: "page_of s * maxPageMsg + off_of s = unat s"
  by (simp add: page_of_div off_of_mod)

subsection \<open>Growing and updating\<close>

lemma grow_facts:
  assumes "length (msgPages mc) = nPage mc" "pageIncrement dvd nPage mc"
  shows "page < nPage (grow page mc) \<and> length (msgPages (grow page mc)) = nPage (grow page mc) \<and>
    pageIncrement dvd nPage (grow page mc) \<and> nPage mc \<le> nPage (grow page mc) \<and>
    maxPageNo (grow page mc) = maxPageNo mc \<and> cache_at (grow page mc) = cache_at mc"
  using assms
proof (induction page mc rule: grow.induct)
  case (1 page mc)
  let ?mc = "mc\<lparr>msgPages := msgPages mc @ replicate pageIncrement emptyPage,
    nPage := nPage mc + pageIncrement\<rparr>"
  show ?case
  proof (cases "nPage mc \<le> page")
    case True
    have "cache_at ?mc = cache_at mc"
      by (auto simp: cache_at_def fun_eq_iff nth_append emptyPage_def)
    with "1.IH" [OF True] "1.prems" True show ?thesis by (auto simp: grow.simps [of page mc])
  next
    case False
    with "1.prems" show ?thesis by (simp add: grow.simps [of page mc])
  qed
qed

lemma cache_at_page_set:
  assumes "page < length (msgPages mc)" "off < maxPageMsg"
  shows "cache_at (page_set mc page off p) = (cache_at mc)(page * maxPageMsg + off := p)"
proof
  fix n
  have "n = page * maxPageMsg + off \<longleftrightarrow> n div maxPageMsg = page \<and> n mod maxPageMsg = off"
    using assms(2) div_mult_mod_eq [of n maxPageMsg] by auto
  then show "cache_at (page_set mc page off p) n = ((cache_at mc)(page * maxPageMsg + off := p)) n"
    using assms(1) by (auto simp: cache_at_def page_set_def nth_list_update)
qed

lemma page_set_sel [simp]:
  "nPage (page_set mc page off p) = nPage mc" "maxPageNo (page_set mc page off p) = maxPageNo mc"
  "length (msgPages (page_set mc page off p)) = length (msgPages mc)"
  by (simp_all add: page_set_def)

lemma cache_at_maxPageNo [simp]: "cache_at (mc\<lparr>maxPageNo := k\<rparr>) = cache_at mc"
  by (simp add: cache_at_def fun_eq_iff)

lemma Upset_correct:
  assumes "cache_ok mc"
  shows "\<exists>mc'. Upset s p mc = Ok (cache_at mc (unat s) \<noteq> None, mc') \<and> cache_ok mc' \<and>
    cache_at mc' = (cache_at mc)(unat s := p)"
proof -
  let ?page = "page_of s"
  define mc1 where "mc1 = (if nPage mc \<le> ?page then grow ?page mc else mc)"
  define mc2 where "mc2 = (if maxPageNo mc1 < ?page then mc1\<lparr>maxPageNo := ?page\<rparr> else mc1)"
  have mc1: "?page < nPage mc1" "length (msgPages mc1) = nPage mc1" "pageIncrement dvd nPage mc1"
      "cache_at mc1 = cache_at mc" "maxPageNo mc1 < nPage mc1"
    using assms grow_facts [of mc ?page] by (auto simp: mc1_def cache_ok_def)
  have mc2: "?page < length (msgPages mc2)" "cache_at mc2 = cache_at mc" "cache_ok mc2"
    using mc1 by (auto simp: mc2_def cache_ok_def)
  have "Upset s p mc =
      Ok ((msgPages mc2 ! ?page) (off_of s) \<noteq> None, page_set mc2 ?page (off_of s) p)"
    using mc2(1)
    unfolding Upset_def Let_def mc1_def [symmetric] mc2_def [symmetric] by (simp add: page_get_def)
  moreover have "cache_ok (page_set mc2 ?page (off_of s) p)" using mc2(3) by (simp add: cache_ok_def)
  ultimately show ?thesis
    using mc2 cache_at_u64 [of mc2 s] cache_at_page_set [of ?page mc2 "off_of s" p]
    by (simp add: index_u64)
qed

lemma IsNil_correct: "cache_ok mc \<Longrightarrow> IsNil s mc = Ok (cache_at mc (unat s) = None)"
  by (simp add: IsNil_def Let_def page_get_def cache_at_u64 cache_ok_def)

subsection \<open>Merging\<close>

lemma page_get_Ok:
  "page < length (msgPages mc) \<Longrightarrow> off < maxPageMsg \<Longrightarrow>
   page_get mc page off = Ok (cache_at mc (page * maxPageMsg + off))"
  by (simp add: page_get_def cache_at_index)

text \<open>The index after \<open>off++\<close> and the step to the next page.\<close>

lemma next_index:
  assumes "off < maxPageMsg" "maxPageMsg \<le> off + 1"
  shows "Suc (page * maxPageMsg + off) = Suc page * maxPageMsg + 0"
  using assms by simp

lemma cache_at_beyond:
  "length (msgPages mc) \<le> page \<Longrightarrow> cache_at mc (page * maxPageMsg) = None"
  using cache_at_index [of 0 mc page] by simp

lemma getCount_run:
  assumes "cache_ok mc" "page < nPage mc" "off < maxPageMsg"
  shows "\<exists>ms. getCount mc page off res = Ok (res + length ms) \<and>
    is_run (cache_at mc) (page * maxPageMsg + off) ms"
  using assms
proof (induction mc page off res rule: getCount.induct)
  case (1 mc page off res)
  have len: "length (msgPages mc) = nPage mc" using "1.prems" by (simp add: cache_ok_def)
  have get: "page_get mc page off = Ok (cache_at mc (page * maxPageMsg + off))"
    using "1.prems" len by (intro page_get_Ok) auto
  show ?case
  proof (cases "cache_at mc (page * maxPageMsg + off)")
    case None
    then have "getCount mc page off res = Ok (res + length [])"
      by (simp add: getCount.simps [of mc page off] get)
    with None show ?thesis by (metis is_run_Nil)
  next
    case (Some m)
    have step: "\<exists>ms. getCount mc page off res = Ok (res + length ms) \<and>
        is_run (cache_at mc) (page * maxPageMsg + off) ms"
      if "getCount mc page off res = Ok (res + 1 + length ms')"
        "is_run (cache_at mc) (Suc (page * maxPageMsg + off)) ms'" for ms'
      using that Some by (intro exI [of _ "m # ms'"]) simp
    consider (stay) "off + 1 < maxPageMsg"
      | (last) "maxPageMsg \<le> off + 1" "nPage mc \<le> page + 1"
      | (turn) "maxPageMsg \<le> off + 1" "page + 1 < nPage mc"
      by linarith
    then show ?thesis
    proof cases
      case stay
      then show ?thesis
        using "1.IH" (2) [OF get Some] "1.prems" step Some
        by (fastforce simp: getCount.simps [of mc page off] get)
    next
      case last
      then show ?thesis
        using step [of "[]"] Some "1.prems"(3) len cache_at_beyond [of mc "Suc page"]
        by (simp add: getCount.simps [of mc page off] get next_index)
    next
      case turn
      then show ?thesis
        using "1.IH" (1) [OF get Some turn(1)] "1.prems" step Some next_index [of off page]
        by (fastforce simp: getCount.simps [of mc page off] get)
    qed
  qed
qed

lemma fill_loop_run:
  assumes "cache_ok mc" "off < maxPageMsg" "i < cnt" "length ret = cnt" "length ms = cnt - i"
    and "is_run (cache_at mc) (page * maxPageMsg + off) ms"
  shows "fill_loop mc cnt ret i page off = Ok (take i ret @ ms)"
  using assms
proof (induction mc cnt ret i page off arbitrary: ms rule: fill_loop.induct)
  case (1 mc cnt ret i page off)
  obtain m ms' where ms: "ms = m # ms'" using "1.prems" by (cases ms) auto
  with "1.prems"(6) have Some: "cache_at mc (page * maxPageMsg + off) = Some m"
    and run: "is_run (cache_at mc) (Suc (page * maxPageMsg + off)) ms'" by auto
  have pl: "page < length (msgPages mc)"
    using Some cache_at_index [OF "1.prems"(2), of mc page] by (simp split: if_splits)
  have get: "page_get mc page off = Ok (Some m)"
    using page_get_Ok [OF pl "1.prems"(2)] Some by simp
  have tk: "take (Suc i) (ret[i := m]) = take i ret @ [m]"
    using "1.prems" by (simp add: take_Suc_conv_app_nth)
  show ?case
  proof (cases "cnt \<le> i + 1")
    case True
    then have "length ms' = 0" using "1.prems"(3,5) ms by (simp only: list.size)
    moreover have "ret[i := m] = take i ret @ [m]" using True "1.prems"(4) tk by simp
    ultimately have "ms' = []" "ret[i := m] = take i ret @ [m]" by simp_all
    with True "1.prems" ms show ?thesis by (simp add: fill_loop.simps [of mc cnt ret i] get)
  next
    case False
    have len: "length ms' = cnt - (i + 1)" using "1.prems"(5) ms by simp
    show ?thesis
    proof (cases "maxPageMsg \<le> off + 1")
      case True
      with False "1.prems" run len next_index [of off page]
      have "fill_loop mc cnt (ret[i := m]) (i + 1) (page + 1) 0 = Ok (take (i + 1) (ret[i := m]) @ ms')"
        by (intro "1.IH" (1) [OF get]) auto
      with False True "1.prems" tk ms show ?thesis by (simp add: fill_loop.simps [of mc cnt ret i] get)
    next
      case stay: False
      with False "1.prems" run len
      have "fill_loop mc cnt (ret[i := m]) (i + 1) page (off + 1) = Ok (take (i + 1) (ret[i := m]) @ ms')"
        by (intro "1.IH" (2) [OF get]) auto
      with False stay "1.prems" tk ms show ?thesis by (simp add: fill_loop.simps [of mc cnt ret i] get)
    qed
  qed
qed

lemma Merge_correct:
  assumes "cache_ok mc"
  shows "if cache_at mc (unat s) = None then Merge s mc = Ok None
    else \<exists>ms. Merge s mc = Ok (Some ms) \<and> is_run (cache_at mc) (unat s) ms"
proof (cases "cache_at mc (unat s)")
  case None
  then show ?thesis
    using assms by (auto simp: Merge_def Let_def page_get_def cache_at_u64 cache_ok_def)
next
  case (Some m)
  then have page: "page_of s < nPage mc" using assms by (simp add: cache_at_u64 cache_ok_def split: if_splits)
  have get: "page_get mc (page_of s) (off_of s) = Ok (Some m)"
    using page_get_Ok [of "page_of s" mc "off_of s"] page assms Some
    by (simp add: index_u64 cache_ok_def)
  obtain ms where ms: "getCount mc (page_of s) (off_of s) 0 = Ok (length ms)"
      "is_run (cache_at mc) (unat s) ms"
    using getCount_run [OF assms page, of "off_of s" 0] by (auto simp: index_u64)
  then have "ms \<noteq> []" using Some by auto
  then have "fill_loop mc (length ms) (replicate (length ms) \<lparr>Data = []\<rparr>) 0 (page_of s) (off_of s) = Ok ms"
    using fill_loop_run [of mc "off_of s" 0 "length ms" "replicate (length ms) \<lparr>Data = []\<rparr>" ms "page_of s"]
      assms ms by (simp add: index_u64)
  with \<open>ms \<noteq> []\<close> Some ms page get show ?thesis by (simp add: Merge_def Let_def)
qed

interpretation pages: seq_cache cache_ok cache_at Upset IsNil Merge
  by unfold_locales (rule Upset_correct IsNil_correct Merge_correct; assumption)+

lemma Init_ok: "maxPageNo mc = 0 \<Longrightarrow> cache_ok (Init mc)"
  by (simp add: cache_ok_def Init_def pageIncrement_def)

lemma cache_at_Init [simp]: "cache_at (Init mc) = (\<lambda>n. None)"
  by (auto simp: cache_at_def Init_def emptyPage_def)

text \<open>The zero value of the struct, before \<open>Init\<close>.\<close>

definition zero_cache :: msgCache where
  "zero_cache = \<lparr>nPage = 0, maxPageNo = 0, msgPages = []\<rparr>"

lemma Init_zero_ok [simp]: "cache_ok (Init zero_cache)"
  by (simp add: Init_ok zero_cache_def)

subsection \<open>Properties\<close>

text \<open>
  C20. \<open>Upset\<close> refines the update of a map: on a well-formed cache it never panics, whatever the
  sequence number (the page array grows until the page exists), returns whether a message was
  replaced, keeps the cache well-formed and changes exactly the entry of that sequence number.
\<close>

theorem Upset_refines_update:
  assumes "cache_ok mc"
  shows "\<exists>mc'. Upset s p mc = Ok (cache_at mc (unat s) \<noteq> None, mc') \<and> cache_ok mc' \<and>
    cache_at mc' = (cache_at mc)(unat s := p) \<and> IsNil s mc' = Ok (p = None)"
proof -
  obtain mc' where "Upset s p mc = Ok (cache_at mc (unat s) \<noteq> None, mc')" "cache_ok mc'"
      "cache_at mc' = (cache_at mc)(unat s := p)"
    using pages.upset_law [OF assms] by blast
  with pages.isnil_law [of mc' s] show ?thesis by simp
qed

theorem Upset_refines_update_witness:
  "\<exists>mc'. Upset 16777217 (Some \<lparr>Data = [1]\<rparr>) (Init zero_cache) = Ok (False, mc') \<and> cache_ok mc' \<and>
    cache_at mc' 16777217 = Some \<lparr>Data = [1]\<rparr> \<and> cache_at mc' 1 = None"
  using Upset_refines_update [OF Init_zero_ok, of 16777217 "Some \<lparr>Data = [1]\<rparr>"] by auto

text \<open>
  C21. \<open>Merge\<close> returns the maximal run: on a well-formed cache it never panics (neither the page
  walk of \<open>getCount\<close> nor the filling loop leaves the pages), returns nil when there is no message
  at the sequence number, and otherwise the messages at consecutive sequence numbers up to the
  first one that is missing, across page boundaries.
\<close>

theorem Merge_returns_maximal_run:
  assumes "cache_ok mc"
  shows "(cache_at mc (unat s) = None \<and> Merge s mc = Ok None) \<or>
    (\<exists>ms. Merge s mc = Ok (Some ms) \<and> ms \<noteq> [] \<and>
      (\<forall>i < length ms. cache_at mc (unat s + i) = Some (ms ! i)) \<and>
      cache_at mc (unat s + length ms) = None)"
proof (cases "cache_at mc (unat s)")
  case None
  with pages.merge_law [OF assms, of s] show ?thesis by simp
next
  case (Some m)
  with pages.merge_law [OF assms, of s] obtain ms where
    ms: "Merge s mc = Ok (Some ms)" "is_run (cache_at mc) (unat s) ms" by auto
  moreover from ms(2) Some have "ms \<noteq> []" by auto
  ultimately show ?thesis by (auto simp: is_run_def)
qed

definition two_pages :: msgCache where
  "two_pages = \<lparr>nPage = 16, maxPageNo = 1,
     msgPages = emptyPage(1048575 := Some \<lparr>Data = [1]\<rparr>) # emptyPage(0 := Some \<lparr>Data = [2]\<rparr>) #
       replicate 14 emptyPage\<rparr>"

theorem Merge_returns_maximal_run_witness:
  "cache_ok two_pages \<and>
   Merge 1048575 two_pages = Ok (Some [\<lparr>Data = [1]\<rparr>, \<lparr>Data = [2]\<rparr>])"
proof -
  have ok: "cache_ok two_pages" by (simp add: cache_ok_def two_pages_def pageIncrement_def)
  have run: "is_run (cache_at two_pages) 1048575 [\<lparr>Data = [1]\<rparr>, \<lparr>Data = [2]\<rparr>]"
    by (simp add: cache_at_def two_pages_def maxPageMsg_def emptyPage_def)
  then have "cache_at two_pages 1048575 \<noteq> None" by simp
  then obtain ms where "Merge 1048575 two_pages = Ok (Some ms)"
      "is_run (cache_at two_pages) 1048575 ms"
    using Merge_returns_maximal_run [OF ok, of 1048575] by (auto simp: is_run_def)
  with is_run_unique [OF run] ok show ?thesis by simp
qed

end
