(* ===== verification/Net_Addr.thy ===== *)
theory Net_Addr
  imports Mold_Prelude
begin

section \<open>Addresses (package net; SockaddrInet4 and HardwareAddr of socket.go)\<close>

text \<open>
  The parts of the package net the code computes with: the 16-byte form of an IPv4 address,
  \<open>To4\<close> and \<open>IsMulticast\<close> (a nil address is the empty list); \<open>strings.Split\<close> by a
  character; the address types of socket.go with their printed forms; and \<open>getIfAddr\<close>, the
  address of an interface. A printed socket address can be read back: \<open>read_addr\<close> is a
  reference reader, by which the printed form determines the address.
\<close>

subsection \<open>Package net and package strings\<close>

definition net_IPv4 :: "byte \<Rightarrow> byte \<Rightarrow> byte \<Rightarrow> byte \<Rightarrow> byte list" where
  "net_IPv4 a b c d = replicate 10 0 @ [0xff, 0xff, a, b, c, d]"

definition To4 :: "byte list \<Rightarrow> byte list" where
  "To4 ip =
     (if length ip = 4 then ip
      else if length ip = 16 \<and> take 12 ip = replicate 10 0 @ [0xff, 0xff] then drop 12 ip
      else [])"

definition IsMulticast :: "byte list \<Rightarrow> bool" where
  "IsMulticast ip =
     (if To4 ip \<noteq> [] then (To4 ip ! 0) AND 0xf0 = 0xe0 else length ip = 16 \<and> ip ! 0 = 0xff)"

fun split_on :: "char \<Rightarrow> string \<Rightarrow> string list" where
  "split_on c [] = [[]]"
| "split_on c (x # xs) =
     (if x = c then [] # split_on c xs
      else (case split_on c xs of [] \<Rightarrow> [[x]] | s # ss \<Rightarrow> (x # s) # ss))"

lemma To4_net_IPv4 [simp]: "To4 (net_IPv4 a b c d) = [a, b, c, d]"
  by (simp add: To4_def net_IPv4_def numeral_eq_Suc)

lemma length_To4: "length (To4 ip) = 4 \<or> To4 ip = []"
  by (auto simp: To4_def)

lemma split_on_none: "c \<notin> set xs \<Longrightarrow> split_on c xs = [xs]"
  by (induction xs) auto

lemma split_on_append: "c \<notin> set xs \<Longrightarrow> split_on c (xs @ c # ys) = xs # split_on c ys"
  by (induction xs) auto

subsection \<open>Printed numbers (package fmt)\<close>

text \<open>\<open>%d\<close> of a number and \<open>%02x\<close> of a byte.\<close>

definition digit_char :: "nat \<Rightarrow> char" where
  "digit_char d = char_of (if d < 10 then 48 + d else 87 + d)"

fun show_dec :: "nat \<Rightarrow> string" where
  "show_dec n = (if n < 10 then [digit_char n] else show_dec (n div 10) @ [digit_char (n mod 10)])"

declare show_dec.simps [simp del]

definition fmt_d :: "int \<Rightarrow> string" where
  "fmt_d i = (if i < 0 then CHR ''-'' # show_dec (nat (- i)) else show_dec (nat i))"

definition fmt_02x :: "byte \<Rightarrow> string" where
  "fmt_02x b = [digit_char (unat b div 16), digit_char (unat b mod 16)]"

subsection \<open>Address types\<close>

record SockaddrInet4 =
  sa_Port :: int
  sa_Addr :: "byte list"

definition Sockaddr_IP :: "SockaddrInet4 \<Rightarrow> string" where
  "Sockaddr_IP adr =
     fmt_d (uint (sa_Addr adr ! 0)) @ ''.'' @ fmt_d (uint (sa_Addr adr ! 1)) @ ''.'' @
     fmt_d (uint (sa_Addr adr ! 2)) @ ''.'' @ fmt_d (uint (sa_Addr adr ! 3))"

definition Sockaddr_String :: "SockaddrInet4 \<Rightarrow> string" where
  "Sockaddr_String adr =
     fmt_d (uint (sa_Addr adr ! 0)) @ ''.'' @ fmt_d (uint (sa_Addr adr ! 1)) @ ''.'' @
     fmt_d (uint (sa_Addr adr ! 2)) @ ''.'' @ fmt_d (uint (sa_Addr adr ! 3)) @ '':'' @
     fmt_d (sa_Port adr)"

text \<open>A hardware address is a slice: one of fewer than six bytes panics.\<close>

definition HardwareAddr_String :: "byte list \<Rightarrow> string outcome" where
  "HardwareAddr_String adr =
     (if length adr < 6 then Panic IndexOutOfRange
      else Ok (fmt_02x (adr ! 0) @ '':'' @ fmt_02x (adr ! 1) @ '':'' @ fmt_02x (adr ! 2) @ '':'' @
               fmt_02x (adr ! 3) @ '':'' @ fmt_02x (adr ! 4) @ '':'' @ fmt_02x (adr ! 5)))"

text \<open>
  The address of an interface: \<open>None\<close> is a nil interface, \<open>Inl\<close> an error of
  \<open>Interface.Addrs\<close>, \<open>Inr\<close> its addresses as printed (address, slash, prefix length). Both
  results of the call are returned.
\<close>

type_synonym net_Interface = "go_error + string list"

definition getIfAddr ::
  "(string \<Rightarrow> byte list) \<Rightarrow> net_Interface option \<Rightarrow> byte list \<times> go_error option" where
  "getIfAddr parseIP ifn =
     (let ret = net_IPv4 0 0 0 0
      in case ifn of
           None \<Rightarrow> (ret, None)
         | Some (Inl e) \<Rightarrow> (ret, Some e)
         | Some (Inr []) \<Rightarrow> (ret, None)
         | Some (Inr (a # as)) \<Rightarrow>
             let ifAddr = parseIP (split_on CHR ''/'' a ! 0)
             in if ifAddr \<noteq> [] then (ifAddr, None) else (ret, Some ErrNoIP))"

subsection \<open>Reading printed addresses back\<close>

definition digit_val :: "char \<Rightarrow> nat" where
  "digit_val c = (let n = of_char c in if n < 58 then n - 48 else n - 87)"

definition read_dec :: "string \<Rightarrow> nat" where
  "read_dec s = foldl (\<lambda>a c. 10 * a + digit_val c) 0 s"

definition read_addr :: "string \<Rightarrow> SockaddrInet4" where
  "read_addr s =
     (let ip_port = split_on CHR '':'' s
      in \<lparr>sa_Port = int (read_dec (ip_port ! 1)),
          sa_Addr = map (\<lambda>f. of_nat (read_dec f)) (split_on CHR ''.'' (ip_port ! 0))\<rparr>)"

lemma of_char_digit: "d < 16 \<Longrightarrow> of_char (digit_char d) = (if d < 10 then 48 + d else 87 + d)"
  by (auto simp: digit_char_def)

lemma digit_val_char [simp]: "d < 16 \<Longrightarrow> digit_val (digit_char d) = d"
  by (simp add: digit_val_def of_char_digit)

lemma set_show_dec: "c \<in> set (show_dec n) \<Longrightarrow> of_char c \<in> {48..<58 :: nat}"
  by (induction n rule: show_dec.induct)
    (subst (asm) (2) show_dec.simps, auto simp: of_char_digit split: if_splits)

lemma separator_notin_show_dec: "CHR ''.'' \<notin> set (show_dec n)" "CHR '':'' \<notin> set (show_dec n)"
  using set_show_dec [of "CHR ''.''" n] set_show_dec [of "CHR '':''" n] by auto

lemma read_show_dec: "read_dec (show_dec n) = n"
proof (induction n rule: show_dec.induct)
  case (1 n)
  show ?case
  proof (cases "n < 10")
    case True
    then show ?thesis by (simp add: show_dec.simps read_dec_def)
  next
    case False
    with 1 have "foldl (\<lambda>a c. 10 * a + digit_val c) 0 (show_dec (n div 10)) = n div 10"
      by (simp add: read_dec_def)
    with False show ?thesis by (subst show_dec.simps) (simp add: read_dec_def)
  qed
qed

lemma fmt_d_nat: "0 \<le> i \<Longrightarrow> fmt_d i = show_dec (nat i)"
  by (simp add: fmt_d_def)

lemma read_addr_String:
  assumes "length (sa_Addr adr) = 4" "0 \<le> sa_Port adr"
  shows "read_addr (Sockaddr_String adr) = adr"
proof -
  let ?a = "sa_Addr adr" and ?s = "\<lambda>i. show_dec (nat (uint (sa_Addr adr ! i)))"
  let ?ip = "?s 0 @ CHR ''.'' # ?s 1 @ CHR ''.'' # ?s 2 @ CHR ''.'' # ?s 3"
  have str: "Sockaddr_String adr = ?ip @ CHR '':'' # show_dec (nat (sa_Port adr))"
    using assms(2) by (simp add: Sockaddr_String_def fmt_d_nat)
  have "CHR '':'' \<notin> set ?ip" using separator_notin_show_dec by simp
  then have "split_on CHR '':'' (Sockaddr_String adr) = [?ip, show_dec (nat (sa_Port adr))]"
    unfolding str by (subst split_on_append) (simp_all add: split_on_none separator_notin_show_dec)
  moreover have "split_on CHR ''.'' ?ip = [?s 0, ?s 1, ?s 2, ?s 3]"
    by (simp only: split_on_append split_on_none separator_notin_show_dec not_False_eq_True)
  moreover have "?a = [?a ! 0, ?a ! 1, ?a ! 2, ?a ! 3]"
    using assms(1) by (auto simp: numeral_eq_Suc length_Suc_conv)
  ultimately show ?thesis using assms(2)
    by (cases adr) (simp add: read_addr_def read_show_dec)
qed

lemma unat_byte_less [simp]: "unat (b :: byte) < 256"
  using unsigned_less [where w = b] by simp

lemma fmt_02x_inj: "fmt_02x a = fmt_02x b \<longleftrightarrow> a = b"
proof
  assume "fmt_02x a = fmt_02x b"
  then have "digit_val (digit_char (unat a div 16)) = digit_val (digit_char (unat b div 16))"
    "digit_val (digit_char (unat a mod 16)) = digit_val (digit_char (unat b mod 16))"
    by (simp_all add: fmt_02x_def)
  moreover have "unat a div 16 < 16" "unat b div 16 < 16"
    by (simp_all add: less_mult_imp_div_less)
  ultimately have "unat a div 16 = unat b div 16" "unat a mod 16 = unat b mod 16" by simp_all
  then have "unat a = unat b" by (metis div_mod_decomp)
  then show "a = b" by (simp add: word_unat_eq_iff)
qed simp

end
