(* ===== verification/Client_Model.thy ===== *)
theory Client_Model
  imports Msg_Cache Net_Addr
begin

section \<open>The client: state and handlers (client.go)\<close>

text \<open>
  The struct \<open>Client\<close> as a record with the fields of the source, and one definition per
  method. The clock is an argument: \<open>now\<close> is a \<open>time.Time\<close> in nanoseconds since the zero
  \<open>time.Time\<close>, so that a \<open>reqLast\<close> that was never set is 0. \<open>ready\<close> is \<open>None\<close> for a nil
  slice. The counters are 64-bit words, as Go's \<open>int\<close> wraps.

  Two goroutines and the caller of \<open>Read\<close> share the client. \<open>doMsgLoop\<close> hands packets to
  \<open>gotBuff\<close>, which sends them on the channel \<open>ch\<close>; \<open>requestLoop\<close> takes them off and runs
  \<open>doMsgBuf\<close>, and asks for retransmission on a tick. \<open>doMsgBuf\<close> is cut at the lock it takes
  to hand over messages: \<open>doMsgBuf_front\<close> is everything before, \<open>publish\<close> what happens
  under the lock. A send on a full channel blocks: \<open>gotBuff\<close> is then \<open>None\<close>.

  Network and operating system are arguments too: what \<open>net.DialUDP\<close> answers, and for
  \<open>NewClient\<close> what \<open>net.ParseIP\<close>, \<open>net.InterfaceByName\<close>, \<open>McastConn.Open\<close> and the
  conversion \<open>to.Int\<close> of a third-party package answer.
\<close>

subsection \<open>State\<close>

record UDPAddr =
  IP :: "byte list"
  Port :: int

record msgBuf =
  bufSeqNo :: u64
  msgCnt :: u16
  dataBuf :: "byte list"

record Client =
  dstIP :: "byte list"
  dstPort :: int
  connReq :: "UDPAddr option"
  conn :: "nat option"
  reqSrv :: "UDPAddr list"
  Running :: bool
  endSession :: bool
  bDone :: bool
  LastRecv :: int
  seqNo :: u64
  seqMax :: u64
  seqEnd :: u64
  reqLast :: int
  nRecvs :: goint
  nRequest :: goint
  nError :: goint
  nMissed :: goint
  nInvalid :: goint
  nRepeats :: goint
  lastLogTime :: int
  lastSeq :: u64
  lastN :: "32 word"
  robinN :: nat
  session :: "byte list"
  nMerges :: goint
  ch :: "msgBuf list"
  ready :: "Message list option"
  cache :: msgCache

record Option =
  Srvs :: "string list"
  IfName :: string
  NextSeq :: u64

definition reqInterval :: int where
  "reqInterval = 10 * 1000000"

definition maxMessages :: u16 where
  "maxMessages = 1024"

definition nakWindow :: u64 where
  "nakWindow = 65400"

definition chCap :: nat where
  "chCap = 5000"

subsection \<open>Time\<close>

text \<open>
  \<open>Time.Sub\<close> saturates at the range of a 64-bit duration; \<open>Time.Unix\<close> counts seconds from
  1970, which is 62135596800 seconds after the zero \<open>Time\<close>.
\<close>

definition time_sub :: "int \<Rightarrow> int \<Rightarrow> int" where
  "time_sub t u = max (- (2 ^ 63)) (min (2 ^ 63 - 1) (t - u))"

definition time_unix :: "int \<Rightarrow> int" where
  "time_unix t = (t - 62135596800 * 1000000000) div 1000000000"

subsection \<open>Cache access\<close>

definition storeCache :: "Message list \<Rightarrow> u64 \<Rightarrow> Client \<Rightarrow> (u64 \<times> Client) outcome" where
  "storeCache buf s c =
     bind_outcome (store_loop Upset buf s False (cache c)) (\<lambda>(bMerge, s', mc).
       let c1 = c\<lparr>cache := mc\<rparr>
       in if bMerge then Ok (0, c1\<lparr>nMerges := nMerges c1 + 1\<rparr>)
          else bind_outcome (IsNil (s' - 1) (cache c1)) (\<lambda>isn.
            if \<not> isn then Ok (0, c1) else Ok (s, c1)))"

definition popCache :: "u64 \<Rightarrow> Client \<Rightarrow> Message list option outcome" where
  "popCache s c = Merge s (cache c)"

subsection \<open>Retransmission requests\<close>

definition newReq :: "int \<Rightarrow> u64 \<Rightarrow> Client \<Rightarrow> byte list option \<times> Client" where
  "newReq now s c =
     (if s \<le> seqNo c then (None, c)
      else
        let c1 = (if seqMax c < s then c\<lparr>seqMax := s\<rparr> else c)
        in if time_sub now (reqLast c1) < reqInterval then (None, c1)
           else
             let c2 = c1\<lparr>reqLast := now\<rparr>;
                 seqF = seqNo c2;
                 cnt = s - seqF;
                 cnt' = (if nakWindow < cnt then nakWindow else cnt);
                 head = \<lparr>Session = session c2, SeqNo = seqF, MessageCnt = ucast cnt'\<rparr>
             in case EncodeHead (replicate headSize 0) head of
                  Ok buff \<Rightarrow> (Some (take headSize buff), c2)
                | Err e \<Rightarrow> (None, c2)
                | Panic p \<Rightarrow> (None, c2))"

text \<open>
  \<open>request\<close>: the datagrams it sends are returned, each with the address the connection was
  dialled to. \<open>dial\<close> is the answer of \<open>net.DialUDP\<close>; a failing \<open>Write\<close> is only logged.
\<close>

definition request ::
  "(UDPAddr \<Rightarrow> bool) \<Rightarrow> byte list \<Rightarrow> Client \<Rightarrow> ((UDPAddr \<times> byte list) list \<times> Client) outcome" where
  "request dial buff c =
     (if reqSrv c = [] then Ok ([], c)
      else
        let c1 = c\<lparr>nRequest := nRequest c + 1\<rparr>
        in if (sint (nRequest c1) < 5 \<or> connReq c1 = None) \<and> length (reqSrv c1) \<le> robinN c1
           then Panic IndexOutOfRange
           else if connReq c1 = None \<and> \<not> dial (reqSrv c1 ! robinN c1) then Ok ([], c1)
           else
             let to = (case connReq c1 of None \<Rightarrow> reqSrv c1 ! robinN c1 | Some a \<Rightarrow> a);
                 c2 = c1\<lparr>connReq := Some to\<rparr>;
                 c3 = c2\<lparr>robinN := robinN c2 + 1\<rparr>;
                 c4 = (if length (reqSrv c3) \<le> robinN c3 then c3\<lparr>robinN := 0\<rparr> else c3)
             in Ok ([(to, buff)], c4))"

subsection \<open>Receiving a packet\<close>

definition send_ch :: "msgBuf \<Rightarrow> Client \<Rightarrow> Client option" where
  "send_ch mb c = (if length (ch c) < chCap then Some (c\<lparr>ch := ch c @ [mb]\<rparr>) else None)"

text \<open>The checks of \<open>gotBuff\<close> on a decoded header, with what they update.\<close>

definition check_head :: "int \<Rightarrow> Header \<Rightarrow> nat \<Rightarrow> Client \<Rightarrow> unit outcome \<times> Client" where
  "check_head now head n c1 =
     (let nMsg = MessageCnt head in
      if nMsg \<noteq> 0xffff \<and> maxMessages \<le> nMsg
      then (Err ErrInvMessageCnt, c1\<lparr>nError := nError c1 + 1\<rparr>)
      else
        let c2 = c1\<lparr>LastRecv := time_unix now\<rparr> in
        if session c2 \<noteq> [] \<and> session c2 \<noteq> Session head
        then (Err ErrSession, c2\<lparr>nError := nError c2 + 1\<rparr>)
        else
          let c3 = (if session c2 = [] then c2\<lparr>session := Session head\<rparr> else c2) in
          if nMsg \<noteq> 0xffff \<and> nMsg \<noteq> 0 \<and> n = headSize
          then (Err ErrMessageCnt, c3)
          else (Ok (), c3))"

definition gotBuff :: "int \<Rightarrow> byte list \<Rightarrow> nat \<Rightarrow> Client \<Rightarrow> (unit outcome \<times> Client) option" where
  "gotBuff now buff n c =
     (let c1 = c\<lparr>nRecvs := nRecvs c + 1\<rparr> in
      if length buff < n then Some (Panic SliceOutOfRange, c1)
      else
        (case DecodeHead (take n buff) of
           Panic p \<Rightarrow> Some (Panic p, c1)
         | Err e \<Rightarrow> Some (Err ErrDecodeHead, c1\<lparr>nError := nError c1 + 1\<rparr>)
         | Ok head \<Rightarrow>
             (case check_head now head n c1 of
                (Ok u, c3) \<Rightarrow>
                  let nMsg = MessageCnt head;
                      newBuf = (if nMsg \<noteq> 0xffff \<and> nMsg \<noteq> 0 then go_slice buff headSize n else []);
                      msgBB = \<lparr>bufSeqNo = SeqNo head, msgCnt = nMsg, dataBuf = newBuf\<rparr>
                  in map_option (Pair (Ok ())) (send_ch msgBB c3)
              | (Err e, c3) \<Rightarrow> Some (Err e, c3)
              | (Panic p, c3) \<Rightarrow> Some (Panic p, c3))))"

subsection \<open>Processing a message buffer\<close>

text \<open>The messages of the buffer, nil when it has no payload.\<close>

definition unpack :: "msgBuf \<Rightarrow> Message list outcome" where
  "unpack mb =
     (if length (dataBuf mb) > 0 then Unmarshal (dataBuf mb) (int (unat (msgCnt mb))) else Ok [])"

text \<open>The part of \<open>doMsgBuf\<close> that handles the end of the session.\<close>

definition eos_update :: "msgBuf \<Rightarrow> Client \<Rightarrow> Client" where
  "eos_update mb c =
     (if msgCnt mb = 0xffff then
        let c1 = (if \<not> endSession c then c\<lparr>endSession := True, seqEnd := bufSeqNo mb\<rparr> else c)
        in if seqMax c1 \<le> seqNo c1 then
             if seqMax c1 < seqEnd c1 \<and> seqNo c1 < seqEnd c1 then
               if ready c1 = None then c1\<lparr>seqMax := seqEnd c1\<rparr> else c1
             else
               let c2 = c1\<lparr>bDone := True\<rparr>
               in if ready c2 = None then c2\<lparr>Running := False\<rparr> else c2
           else c1
      else c)"

text \<open>
  How \<open>doMsgBuf\<close> leaves the part before the lock: with a request or none (the returned
  byte slice), with an error, with a panic, or with the messages it goes on to hand over.
\<close>

datatype front = FReturn "byte list option" | FError go_error | FPanic go_panic | FPublish "Message list"

text \<open>From \<open>seqNo = msgBB.seqNo\<close> to the lock: trim, merge the cache, advance.\<close>

definition deliver :: "u64 \<Rightarrow> Message list \<Rightarrow> Client \<Rightarrow> front \<times> Client" where
  "deliver s res c =
     (if s < seqNo c \<and> length res < unat (seqNo c - s) then (FPanic SliceOutOfRange, c)
      else
        let res1 = (if s < seqNo c then drop (unat (seqNo c - s)) res else res);
            s1 = seqNo c + of_nat (length res1)
        in case popCache s1 c of
             Panic p \<Rightarrow> (FPanic p, c)
           | Err e \<Rightarrow> (FError e, c)
           | Ok bb \<Rightarrow>
               let (res2, s2) = (case bb of None \<Rightarrow> (res1, s1)
                                 | Some ms \<Rightarrow> (res1 @ ms, s1 + of_nat (length ms)));
                   c1 = c\<lparr>lastSeq := seqNo c\<rparr>;
                   c2 = c1\<lparr>lastN := ucast (s2 - seqNo c1)\<rparr>;
                   c3 = c2\<lparr>seqNo := s2\<rparr>;
                   c4 = (if endSession c3 \<and> seqMax c3 \<le> s2 then
                           if s2 < seqEnd c3 then c3\<lparr>seqMax := seqEnd c3\<rparr> else c3\<lparr>bDone := True\<rparr>
                         else c3)
               in (FPublish res2, c4))"

definition doMsgBuf_front :: "int \<Rightarrow> msgBuf \<Rightarrow> Client \<Rightarrow> front \<times> Client" where
  "doMsgBuf_front now mb c =
     (case unpack mb of
        Panic p \<Rightarrow> (FPanic p, c)
      | Err e \<Rightarrow> (FError e, c\<lparr>nError := nError c + 1\<rparr>)
      | Ok res \<Rightarrow>
          let c1 = eos_update mb c; s = bufSeqNo mb
          in if msgCnt mb \<noteq> 0 \<and> msgCnt mb \<noteq> 0xffff then
               if length res \<noteq> unat (msgCnt mb)
               then (FError ErrMessageCnt, c1\<lparr>nError := nError c1 + 1\<rparr>)
               else
                 let seqNext = s + ucast (msgCnt mb); seqF = seqNo c1
                 in if seqNext < seqF then (FReturn None, c1\<lparr>nRepeats := nRepeats c1 + 1\<rparr>)
                    else if seqF < s then
                      (case storeCache res s c1 of
                         Panic p \<Rightarrow> (FPanic p, c1)
                       | Err e \<Rightarrow> (FError e, c1)
                       | Ok (s', c2) \<Rightarrow>
                           if s' \<le> seqF then (FReturn None, c2)
                           else let (reqBuf, c3) = newReq now s' c2
                                in (FReturn reqBuf, c3\<lparr>nMissed := nMissed c3 + 1\<rparr>))
                    else deliver s res c1
             else if seqNo c1 < s then
               let (reqBuf, c2) = newReq now s c1
               in (FReturn reqBuf, c2\<lparr>nMissed := nMissed c2 + 1\<rparr>)
             else (FReturn None, c1))"

definition publish :: "Message list \<Rightarrow> Client \<Rightarrow> Client" where
  "publish res c = c\<lparr>ready := (case ready c of None \<Rightarrow> Some res | Some r \<Rightarrow> Some (r @ res))\<rparr>"

definition doMsgBuf :: "int \<Rightarrow> msgBuf \<Rightarrow> Client \<Rightarrow> byte list option outcome \<times> Client" where
  "doMsgBuf now mb c =
     (case doMsgBuf_front now mb c of
        (FReturn r, c1) \<Rightarrow> (Ok r, c1)
      | (FError e, c1) \<Rightarrow> (Err e, c1)
      | (FPanic p, c1) \<Rightarrow> (Panic p, c1)
      | (FPublish res, c1) \<Rightarrow> (Ok None, publish res c1))"

subsection \<open>Reading\<close>

text \<open>
  One round of the loop of \<open>Read\<close>: \<open>ReadEnd\<close> when \<open>Running\<close> is false (\<open>nil, 0, nil\<close>),
  \<open>ReadMsgs\<close> when there were messages to hand out, \<open>ReadSpin\<close> when it yields and goes on.
\<close>

datatype read_result = ReadMsgs "Message list" u64 | ReadEnd | ReadSpin

definition read_round :: "Client \<Rightarrow> read_result \<times> Client" where
  "read_round c =
     (if \<not> Running c then (ReadEnd, c)
      else
        let res = ready c;
            c1 = c\<lparr>ready := None\<rparr>;
            s = lastSeq c1;
            n = (case res of None \<Rightarrow> 0 | Some r \<Rightarrow> length r);
            c2 = (if bDone c1 \<and> seqNo c1 \<le> s + of_nat n then c1\<lparr>Running := False\<rparr> else c1)
        in case res of None \<Rightarrow> (ReadSpin, c2) | Some r \<Rightarrow> (ReadMsgs r s, c2))"

definition client_LastSeq :: "Client \<Rightarrow> u64 \<times> int" where
  "client_LastSeq c = (lastSeq c, sint (lastN c))"

definition client_SeqNo :: "Client \<Rightarrow> int" where
  "client_SeqNo c = sint (seqNo c)"

definition client_Close :: "go_error option \<Rightarrow> Client \<Rightarrow> go_error option \<times> Client" where
  "client_Close closeErr c =
     (if conn c = None then (Some ErrClosed, c)
      else
        let c1 = c\<lparr>conn := None\<rparr>;
            c2 = (if connReq c1 \<noteq> None then c1\<lparr>connReq := None\<rparr> else c1)
        in (closeErr, c2))"

subsection \<open>The request loop\<close>

type_synonym sent = "(UDPAddr \<times> byte list) list"

text \<open>
  The two cases of the \<open>select\<close>: a tick of the 100 ms ticker, and a buffer on the channel.
  \<open>requestLoop\<close> runs over a schedule of such events, each with the time it happens at, as
  long as \<open>Running\<close> holds; an event for an empty channel does not fire.
\<close>

datatype select_case = Tick | Recv

definition maybe_request :: "(UDPAddr \<Rightarrow> bool) \<Rightarrow> byte list option \<Rightarrow> Client \<Rightarrow> (sent \<times> Client) outcome" where
  "maybe_request dial req c = (case req of None \<Rightarrow> Ok ([], c) | Some b \<Rightarrow> request dial b c)"

definition on_tick :: "(UDPAddr \<Rightarrow> bool) \<Rightarrow> int \<Rightarrow> Client \<Rightarrow> (sent \<times> Client) outcome" where
  "on_tick dial now c =
     (if seqNo c < seqMax c then
        let (req, c1) = newReq now (seqMax c) c in maybe_request dial req c1
      else Ok ([], c))"

definition on_msgBuf :: "(UDPAddr \<Rightarrow> bool) \<Rightarrow> int \<Rightarrow> Client \<Rightarrow> (sent \<times> Client) outcome" where
  "on_msgBuf dial now c =
     (case ch c of
        [] \<Rightarrow> Ok ([], c)
      | mb # rest \<Rightarrow>
          (case doMsgBuf now mb (c\<lparr>ch := rest\<rparr>) of
             (Panic p, c1) \<Rightarrow> Panic p
           | (Err e, c1) \<Rightarrow>
               Ok ([], if lastLogTime c1 < time_unix now then c1\<lparr>lastLogTime := time_unix now\<rparr> else c1)
           | (Ok req, c1) \<Rightarrow> maybe_request dial req c1))"

fun select_step :: "(UDPAddr \<Rightarrow> bool) \<Rightarrow> int \<Rightarrow> select_case \<Rightarrow> Client \<Rightarrow> (sent \<times> Client) outcome" where
  "select_step dial now Tick c = on_tick dial now c"
| "select_step dial now Recv c = on_msgBuf dial now c"

fun requestLoop ::
  "(UDPAddr \<Rightarrow> bool) \<Rightarrow> (int \<times> select_case) list \<Rightarrow> Client \<Rightarrow> (sent \<times> Client) outcome" where
  "requestLoop dial [] c = Ok ([], c)"
| "requestLoop dial ((now, e) # es) c =
     (if \<not> Running c then Ok ([], c)
      else bind_outcome (select_step dial now e c) (\<lambda>(out, c1).
             bind_outcome (requestLoop dial es c1) (\<lambda>(out', c2). Ok (out @ out', c2))))"

subsection \<open>The receive loop\<close>

text \<open>
  What each of the three copies of the receive code in \<open>doMsgLoop\<close> (ring buffer callback,
  batch of \<open>MRecv\<close>, single \<open>Recv\<close>) does with one datagram: hand it to \<open>gotBuff\<close>; on
  success learn the request server from the sender when none is configured, on an error
  remember the second of the log line. \<open>None\<close>: blocked on the channel.
\<close>

definition learn_server :: "UDPAddr \<Rightarrow> Client \<Rightarrow> Client" where
  "learn_server rAddr c =
     (if reqSrv c = [] then c\<lparr>reqSrv := [rAddr\<lparr>Port := dstPort c + 1\<rparr>]\<rparr> else c)"

definition log_error :: "int \<Rightarrow> Client \<Rightarrow> Client" where
  "log_error now c = (if lastLogTime c \<noteq> time_unix now then c\<lparr>lastLogTime := time_unix now\<rparr> else c)"

definition handle_packet :: "int \<Rightarrow> byte list \<Rightarrow> nat \<Rightarrow> UDPAddr \<Rightarrow> Client \<Rightarrow> (unit outcome \<times> Client) option" where
  "handle_packet now buff n rAddr c =
     (case gotBuff now buff n c of
        None \<Rightarrow> None
      | Some (Ok u, c1) \<Rightarrow> Some (Ok u, learn_server rAddr c1)
      | Some (Err e, c1) \<Rightarrow> Some (Err e, log_error now c1)
      | Some (Panic p, c1) \<Rightarrow> Some (Panic p, c1))"

fun handle_batch :: "int \<Rightarrow> byte list list \<Rightarrow> UDPAddr \<Rightarrow> Client \<Rightarrow> (unit outcome \<times> Client) option" where
  "handle_batch now [] rAddr c = Some (Ok (), c)"
| "handle_batch now (buf # bufs) rAddr c =
     (case handle_packet now buf (length buf) rAddr c of
        None \<Rightarrow> None
      | Some (Panic p, c1) \<Rightarrow> Some (Panic p, c1)
      | Some (Err e, c1) \<Rightarrow> handle_batch now bufs rAddr c1
      | Some (Ok u, c1) \<Rightarrow> handle_batch now bufs rAddr c1)"

text \<open>One round of the loop for what the connection delivers.\<close>

datatype recv_event =
    RingPacket "byte list" UDPAddr
  | MRecvOk "byte list list" UDPAddr
  | MRecvErr go_error
  | RecvOk "byte list" nat UDPAddr
  | RecvErr go_error

fun doMsgLoop_round :: "int \<Rightarrow> recv_event \<Rightarrow> Client \<Rightarrow> (unit outcome \<times> Client) option" where
  "doMsgLoop_round now (RingPacket buff rAddr) c = handle_packet now buff (length buff) rAddr c"
| "doMsgLoop_round now (MRecvOk bufs rAddr) c = handle_batch now bufs rAddr c"
| "doMsgLoop_round now (MRecvErr e) c = Some (Err e, log_error now c)"
| "doMsgLoop_round now (RecvOk buff n rAddr) c = handle_packet now buff n rAddr c"
| "doMsgLoop_round now (RecvErr e) c = Some (Err e, c)"

subsection \<open>Construction\<close>

definition zero_client :: Client where
  "zero_client = \<lparr>dstIP = [], dstPort = 0, connReq = None, conn = None, reqSrv = [],
     Running = False, endSession = False, bDone = False, LastRecv = 0,
     seqNo = 0, seqMax = 0, seqEnd = 0, reqLast = 0,
     nRecvs = 0, nRequest = 0, nError = 0, nMissed = 0, nInvalid = 0, nRepeats = 0,
     lastLogTime = 0, lastSeq = 0, lastN = 0, robinN = 0, session = [], nMerges = 0,
     ch = [], ready = None, cache = zero_cache\<rparr>"

definition parse_srv :: "(string \<Rightarrow> byte list) \<Rightarrow> (string \<Rightarrow> int) \<Rightarrow> int \<Rightarrow> string \<Rightarrow> UDPAddr" where
  "parse_srv parseIP toInt port daddr =
     (let ss = split_on CHR '':'' daddr
      in \<lparr>IP = parseIP (ss ! 0), Port = (if length ss = 1 then port else toInt (ss ! 1))\<rparr>)"

definition NewClient ::
  "(string \<Rightarrow> byte list) \<Rightarrow> (string \<Rightarrow> int) \<Rightarrow> (string \<Rightarrow> nat option) \<Rightarrow>
   (byte list \<Rightarrow> int \<Rightarrow> nat option \<Rightarrow> go_error option) \<Rightarrow> int \<Rightarrow>
   string \<Rightarrow> int \<Rightarrow> Option \<Rightarrow> nat \<Rightarrow> Client outcome" where
  "NewClient parseIP toInt ifByName open_conn now udpAddr port opt h =
     (let c0 = zero_client\<lparr>conn := Some h, seqNo := NextSeq opt\<rparr>;
          c1 = (if seqNo c0 = 0 then c0\<lparr>seqNo := seqNo c0 + 1\<rparr> else c0);
          c2 = c1\<lparr>dstIP := parseIP udpAddr, dstPort := port\<rparr>;
          c3 = (if \<not> IsMulticast (dstIP c2) then c2\<lparr>dstIP := net_IPv4 224 0 0 1\<rparr> else c2);
          ifn = (if IfName opt \<noteq> [] then ifByName (IfName opt) else None)
      in case open_conn (dstIP c3) port ifn of
           Some e \<Rightarrow> Err e
         | None \<Rightarrow>
             let c4 = c3\<lparr>reqSrv := reqSrv c3 @ map (parse_srv parseIP toInt port) (Srvs opt)\<rparr>;
                 c5 = c4\<lparr>ch := []\<rparr>;
                 c6 = c5\<lparr>cache := Init (cache c5)\<rparr>
             in Ok (c6\<lparr>Running := True, LastRecv := time_unix now\<rparr>))"

end
