(* ===== verification/Client_Lemmas.thy ===== *)
theory Client_Lemmas
  imports Client_Model
begin

section \<open>The client: handlers one by one\<close>

text \<open>
  Which fields a handler leaves alone (the collection \<open>frame_simps\<close>), what each of them
  does on every branch, and the structural invariant \<open>client_ok\<close> that all of them keep:
  the cache is well-formed, the channel within its capacity, the round-robin index inside the
  server list. From it follows that no handler panics.
\<close>

named_theorems frame_simps \<open>fields a handler does not change\<close>

subsection \<open>Frames\<close>

lemma newReq_frame [frame_simps, simp]:
  "seqNo (snd (newReq now s c)) = seqNo c" "cache (snd (newReq now s c)) = cache c"
  "ready (snd (newReq now s c)) = ready c" "ch (snd (newReq now s c)) = ch c"
  "reqSrv (snd (newReq now s c)) = reqSrv c" "robinN (snd (newReq now s c)) = robinN c"
  "Running (snd (newReq now s c)) = Running c" "bDone (snd (newReq now s c)) = bDone c"
  "endSession (snd (newReq now s c)) = endSession c" "seqEnd (snd (newReq now s c)) = seqEnd c"
  "session (snd (newReq now s c)) = session c" "lastSeq (snd (newReq now s c)) = lastSeq c"
  by (simp_all add: newReq_def Let_def split: outcome.split)

lemma eos_update_frame [frame_simps, simp]:
  "seqNo (eos_update mb c) = seqNo c" "cache (eos_update mb c) = cache c"
  "ready (eos_update mb c) = ready c" "ch (eos_update mb c) = ch c"
  "reqSrv (eos_update mb c) = reqSrv c" "robinN (eos_update mb c) = robinN c"
  "session (eos_update mb c) = session c" "reqLast (eos_update mb c) = reqLast c"
  "lastSeq (eos_update mb c) = lastSeq c" "nMissed (eos_update mb c) = nMissed c"
  by (simp_all add: eos_update_def Let_def)

lemma publish_frame [frame_simps, simp]:
  "seqNo (publish res c) = seqNo c" "cache (publish res c) = cache c" "ch (publish res c) = ch c"
  "reqSrv (publish res c) = reqSrv c" "robinN (publish res c) = robinN c"
  "Running (publish res c) = Running c" "bDone (publish res c) = bDone c"
  "endSession (publish res c) = endSession c" "seqEnd (publish res c) = seqEnd c"
  "session (publish res c) = session c"
  by (simp_all add: publish_def)

lemma request_frame:
  assumes "request dial b c = Ok (out, c')"
  shows "seqNo c' = seqNo c" "cache c' = cache c" "ready c' = ready c" "ch c' = ch c"
    "reqSrv c' = reqSrv c" "Running c' = Running c" "bDone c' = bDone c"
    "endSession c' = endSession c" "seqEnd c' = seqEnd c" "session c' = session c"
    "seqMax c' = seqMax c" "lastSeq c' = lastSeq c"
  using assms by (auto simp: request_def Let_def split: if_splits)

lemma read_round_frame [frame_simps, simp]:
  "seqNo (snd (read_round c)) = seqNo c" "cache (snd (read_round c)) = cache c"
  "ch (snd (read_round c)) = ch c" "reqSrv (snd (read_round c)) = reqSrv c"
  "robinN (snd (read_round c)) = robinN c" "bDone (snd (read_round c)) = bDone c"
  "endSession (snd (read_round c)) = endSession c" "seqEnd (snd (read_round c)) = seqEnd c"
  by (simp_all add: read_round_def Let_def split: option.split)

subsection \<open>The structural invariant\<close>

definition robin_ok :: "Client \<Rightarrow> bool" where
  "robin_ok c \<longleftrightarrow> robinN c < length (reqSrv c) \<or> reqSrv c = [] \<and> robinN c = 0"

definition client_ok :: "Client \<Rightarrow> bool" where
  "client_ok c \<longleftrightarrow> cache_ok (cache c) \<and> length (ch c) \<le> chCap \<and> robin_ok c"

lemma client_okI:
  assumes "cache_ok (cache c)" "length (ch c) \<le> chCap" "robin_ok c"
  shows "client_ok c"
  using assms by (simp add: client_ok_def)

lemma client_ok_cong:
  "cache c' = cache c \<Longrightarrow> ch c' = ch c \<Longrightarrow> reqSrv c' = reqSrv c \<Longrightarrow> robinN c' = robinN c \<Longrightarrow>
   client_ok c' = client_ok c"
  by (simp add: client_ok_def robin_ok_def)

lemma storeCache_total:
  assumes "cache_ok (cache c)"
  shows "\<exists>s' c'. storeCache buf s c = Ok (s', c') \<and> cache_ok (cache c') \<and> ch c' = ch c \<and>
    reqSrv c' = reqSrv c \<and> robinN c' = robinN c \<and> seqNo c' = seqNo c \<and> ready c' = ready c \<and>
    seqMax c' = seqMax c \<and> nMissed c' = nMissed c"
proof -
  obtain r mc where "store_loop Upset buf s False (cache c) = Ok (r, s + of_nat (length buf), mc)"
      "cache_ok mc"
    using pages.store_loop_total [OF assms] by blast
  with pages.isnil_law show ?thesis by (auto simp: storeCache_def Let_def)
qed

lemma popCache_total: "cache_ok (cache c) \<Longrightarrow> \<exists>bb. popCache s c = Ok bb"
  using pages.merge_law [of "cache c" s] by (auto simp: popCache_def split: if_splits)

text \<open>
  The slice \<open>res[int(c.seqNo-seqNo):]\<close> is in range: it is reached only when the packet does
  not end before \<open>c.seqNo\<close>, and an addition that wrapped would not get there.
\<close>

lemma unat_sub_le: "\<not> f < s \<Longrightarrow> unat (f - s) = unat f - unat (s :: u64) \<and> unat s \<le> unat f"
  by (simp add: not_less unat_sub word_le_nat_alt)

lemma trim_in_range:
  fixes s f :: u64 and n :: u16
  assumes "\<not> s + ucast n < f" "\<not> f < s"
  shows "unat (f - s) \<le> unat n"
proof -
  have "unat (s + ucast n) \<le> unat s + unat n"
    by (simp add: unat_word_ariths)
  with assms unat_sub_le [OF assms(2)] show ?thesis by (simp add: word_less_nat_alt)
qed

lemma deliver_total:
  assumes "cache_ok (cache c)" "\<not> (s < seqNo c \<and> length res < unat (seqNo c - s))"
  shows "\<exists>out c'. deliver s res c = (FPublish out, c') \<and> cache c' = cache c \<and> ch c' = ch c \<and>
    reqSrv c' = reqSrv c \<and> robinN c' = robinN c"
proof -
  obtain bb where "popCache (seqNo c +
      of_nat (length (if s < seqNo c then drop (unat (seqNo c - s)) res else res))) c = Ok bb"
    using popCache_total [OF assms(1)] by blast
  with assms(2) show ?thesis by (auto simp: deliver_def Let_def split: option.split)
qed

lemma unpack_cases: "(\<exists>res. unpack mb = Ok res) \<or> unpack mb = Err ErrUnmarshal"
  using Unmarshal_cases [of "dataBuf mb" "unat (msgCnt mb)"] by (auto simp: unpack_def)

lemma unpack_length: "unpack mb = Ok res \<Longrightarrow> dataBuf mb \<noteq> [] \<Longrightarrow> length res = unat (msgCnt mb)"
  using Unmarshal_cases [of "dataBuf mb" "unat (msgCnt mb)"] by (auto simp: unpack_def)

lemma doMsgBuf_front_ok:
  assumes "client_ok c" "doMsgBuf_front now mb c = (r, c')"
  shows "(\<forall>p. r \<noteq> FPanic p) \<and> client_ok c'"
proof (cases "unpack mb")
  case (Ok res)
  have ok1: "client_ok (eos_update mb c)" using assms(1) by (simp add: client_ok_def robin_ok_def)
  then have ck: "cache_ok (cache (eos_update mb c))" by (simp add: client_ok_def)
  obtain s' c2 where st: "storeCache res (bufSeqNo mb) (eos_update mb c) = Ok (s', c2)"
      "cache_ok (cache c2)" "ch c2 = ch c" "reqSrv c2 = reqSrv c" "robinN c2 = robinN c"
    using storeCache_total [OF ck, of res "bufSeqNo mb"] by auto
  have ok2: "client_ok c2" using st ok1 by (simp add: client_ok_def robin_ok_def)
  have del: "\<exists>out c3. deliver (bufSeqNo mb) res (eos_update mb c) = (FPublish out, c3) \<and> client_ok c3"
    if "length res = unat (msgCnt mb)" "\<not> bufSeqNo mb + ucast (msgCnt mb) < seqNo c"
      "\<not> seqNo c < bufSeqNo mb"
    using deliver_total [OF ck, of "bufSeqNo mb" res] trim_in_range [OF that(2,3)] that(1) ok1
    by (fastforce simp: client_ok_def robin_ok_def)
  from assms(2) Ok st del ok1 ok2 show ?thesis
    by (auto simp: doMsgBuf_front_def Let_def client_ok_def robin_ok_def split_beta split: if_splits)
next
  case (Err e)
  with assms show ?thesis by (auto simp: doMsgBuf_front_def client_ok_def robin_ok_def)
next
  case (Panic p)
  with unpack_cases [of mb] show ?thesis by simp
qed

lemma doMsgBuf_ok:
  assumes "client_ok c" "doMsgBuf now mb c = (r, c')"
  shows "\<not> is_panic r \<and> client_ok c'"
proof -
  obtain f c1 where f: "doMsgBuf_front now mb c = (f, c1)" by fastforce
  from doMsgBuf_front_ok [OF assms(1) f] assms(2) f show ?thesis
    by (cases f) (auto simp: doMsgBuf_def client_ok_def robin_ok_def)
qed

lemma maybe_request_ok:
  assumes "client_ok c"
  shows "\<exists>out c'. maybe_request dial req c = Ok (out, c') \<and> client_ok c'"
proof (cases "req = None \<or> reqSrv c = []")
  case True
  with assms show ?thesis by (auto simp: maybe_request_def request_def split: option.split)
next
  case False
  then have "robinN c < length (reqSrv c)" using assms by (auto simp: client_ok_def robin_ok_def)
  with False assms show ?thesis
    by (auto simp: maybe_request_def request_def Let_def client_ok_def robin_ok_def)
qed

lemma newReq_ok: "client_ok c \<Longrightarrow> client_ok (snd (newReq now s c))"
  by (subst client_ok_cong [of _ c]) simp_all

lemma on_tick_ok:
  assumes "client_ok c"
  shows "\<exists>out c'. on_tick dial now c = Ok (out, c') \<and> client_ok c'"
  using assms maybe_request_ok [OF newReq_ok [OF assms]] by (simp add: on_tick_def split_beta)

lemma on_msgBuf_ok:
  assumes "client_ok c"
  shows "\<exists>out c'. on_msgBuf dial now c = Ok (out, c') \<and> client_ok c'"
proof (cases "ch c")
  case Nil
  with assms show ?thesis by (simp add: on_msgBuf_def)
next
  case (Cons mb rest)
  obtain r c1 where d: "doMsgBuf now mb (c\<lparr>ch := rest\<rparr>) = (r, c1)" by fastforce
  have "client_ok (c\<lparr>ch := rest\<rparr>)" using assms Cons by (simp add: client_ok_def robin_ok_def)
  from doMsgBuf_ok [OF this d] have r: "\<not> is_panic r" "client_ok c1" by auto
  from r(2) have "client_ok (if lastLogTime c1 < time_unix now then c1\<lparr>lastLogTime := time_unix now\<rparr> else c1)"
    by (simp add: client_ok_def robin_ok_def)
  with r Cons d maybe_request_ok [OF r(2)] show ?thesis
    by (cases r) (auto simp: on_msgBuf_def)
qed

lemma select_step_ok:
  "client_ok c \<Longrightarrow> \<exists>out c'. select_step dial now e c = Ok (out, c') \<and> client_ok c'"
  using on_tick_ok on_msgBuf_ok by (cases e) auto

lemma requestLoop_ok:
  assumes "client_ok c"
  shows "\<exists>out c'. requestLoop dial es c = Ok (out, c') \<and> client_ok c'"
  using assms
proof (induction dial es c rule: requestLoop.induct)
  case (1 dial c)
  then show ?case by simp
next
  case (2 dial now e es c)
  show ?case
  proof (cases "Running c")
    case True
    from select_step_ok [OF "2.prems"] obtain out c1 where
      s: "select_step dial now e c = Ok (out, c1)" "client_ok c1" by blast
    with "2.IH" True show ?thesis by fastforce
  next
    case False
    with "2.prems" show ?thesis by simp
  qed
qed

lemma DecodeHead_no_panic: "DecodeHead b \<noteq> Panic p"
  by (simp add: DecodeHead_def Let_def)

lemma check_head_frame:
  assumes "check_head now h n c = (r, c')"
  shows "\<not> is_panic r" "seqNo c' = seqNo c" "cache c' = cache c" "ready c' = ready c"
    "bDone c' = bDone c" "endSession c' = endSession c" "seqEnd c' = seqEnd c" "ch c' = ch c"
    "reqSrv c' = reqSrv c" "robinN c' = robinN c" "Running c' = Running c" "lastSeq c' = lastSeq c"
  using assms by (auto simp: check_head_def Let_def split: if_splits)

text \<open>The fields of a client that receiving and requesting leave alone.\<close>

definition same_core :: "Client \<Rightarrow> Client \<Rightarrow> bool" where
  "same_core c c' \<longleftrightarrow>
     seqNo c' = seqNo c \<and> cache c' = cache c \<and> ready c' = ready c \<and> bDone c' = bDone c \<and>
     endSession c' = endSession c \<and> seqEnd c' = seqEnd c \<and> Running c' = Running c \<and>
     lastSeq c' = lastSeq c"

lemma same_core_refl [simp]: "same_core c c"
  by (simp add: same_core_def)

lemma same_core_trans: "same_core a b \<Longrightarrow> same_core b c \<Longrightarrow> same_core a c"
  by (simp add: same_core_def)

lemma gotBuff_cases:
  assumes "gotBuff now buff n c = Some (r, c')"
  shows "same_core c c' \<and> reqSrv c' = reqSrv c \<and> robinN c' = robinN c \<and>
    (ch c' = ch c \<or> r = Ok () \<and> length (ch c) < chCap \<and>
      (\<exists>h b. DecodeHead (take n buff) = Ok h \<and>
        ch c' = ch c @ [\<lparr>bufSeqNo = SeqNo h, msgCnt = MessageCnt h, dataBuf = b\<rparr>] \<and>
        (MessageCnt h \<noteq> 0 \<and> MessageCnt h \<noteq> 0xffff \<longrightarrow> b = drop 20 (take n buff))))"
proof (cases "DecodeHead (take n buff)")
  case (Ok h)
  have sl: "go_slice buff headSize n = drop 20 (take n buff)"
    by (simp add: go_slice_def headSize_def drop_take)
  obtain r1 c1 where k: "check_head now h n (c\<lparr>nRecvs := nRecvs c + 1\<rparr>) = (r1, c1)" by fastforce
  show ?thesis
  proof (cases "length buff < n")
    case True
    with assms show ?thesis by (auto simp: gotBuff_def same_core_def)
  next
    case False
    with assms Ok k check_head_frame [OF k] show ?thesis
      by (cases r1) (auto simp: gotBuff_def Let_def send_ch_def same_core_def sl split: if_splits)
  qed
next
  case (Err e)
  with assms show ?thesis by (auto simp: gotBuff_def Let_def same_core_def split: if_splits)
next
  case (Panic p)
  with DecodeHead_no_panic show ?thesis by blast
qed

lemma gotBuff_ok:
  assumes "client_ok c" "gotBuff now buff n c = Some (r, c')" "n \<le> length buff"
  shows "\<not> is_panic r \<and> client_ok c'"
proof -
  have "\<not> is_panic r"
    using assms(2,3) DecodeHead_no_panic [of "take n buff"]
      check_head_frame(1) [of now _ n "c\<lparr>nRecvs := nRecvs c + 1\<rparr>"]
    by (fastforce simp: gotBuff_def Let_def split: outcome.splits prod.splits if_splits)
  with gotBuff_cases [OF assms(2)] assms(1) show ?thesis
    by (auto simp: client_ok_def robin_ok_def same_core_def)
qed

lemma handle_packet_ok:
  assumes "client_ok c" "handle_packet now buff n rAddr c = Some (r, c')" "n \<le> length buff"
  shows "\<not> is_panic r \<and> client_ok c'"
proof -
  obtain r1 c1 where g: "gotBuff now buff n c = Some (r1, c1)"
    using assms(2) by (auto simp: handle_packet_def split: option.splits)
  from gotBuff_ok [OF assms(1) g assms(3)] g assms(2) show ?thesis
    by (cases r1)
      (auto simp: handle_packet_def learn_server_def log_error_def client_ok_def robin_ok_def
        split: if_splits)
qed

lemma handle_batch_ok:
  assumes "client_ok c" "handle_batch now bufs rAddr c = Some (r, c')"
  shows "\<not> is_panic r \<and> client_ok c'"
  using assms
proof (induction bufs arbitrary: c)
  case Nil
  then show ?case by auto
next
  case (Cons buf bufs)
  then obtain r1 c1 where h: "handle_packet now buf (length buf) rAddr c = Some (r1, c1)"
    by (auto split: option.splits)
  from handle_packet_ok [OF Cons.prems(1) h] have "\<not> is_panic r1" "client_ok c1" by auto
  with Cons h show ?case by (cases r1) auto
qed

text \<open>A datagram that was read into the buffer is not longer than it.\<close>

fun recv_fits :: "recv_event \<Rightarrow> bool" where
  "recv_fits (RecvOk buff n rAddr) = (n \<le> length buff)"
| "recv_fits _ = True"

lemma doMsgLoop_round_ok:
  assumes "client_ok c" "doMsgLoop_round now ev c = Some (r, c')" "recv_fits ev"
  shows "\<not> is_panic r \<and> client_ok c'"
proof (cases ev)
  case (RingPacket buff rAddr)
  with assms show ?thesis using handle_packet_ok by fastforce
next
  case (MRecvOk bufs rAddr)
  with assms show ?thesis using handle_batch_ok by fastforce
next
  case (RecvOk buff n rAddr)
  with assms show ?thesis using handle_packet_ok by fastforce
qed (use assms in \<open>auto simp: log_error_def client_ok_def robin_ok_def\<close>)

lemma read_round_ok: "client_ok c \<Longrightarrow> client_ok (snd (read_round c))"
  by (subst client_ok_cong [of _ c]) simp_all

lemma zero_client_sel [simp]:
  "Running zero_client = False" "ch zero_client = []" "ready zero_client = None"
  "endSession zero_client = False" "bDone zero_client = False" "session zero_client = []"
  "cache zero_client = zero_cache" "seqMax zero_client = 0" "seqNo zero_client = 0"
  "robinN zero_client = 0" "reqSrv zero_client = []" "lastSeq zero_client = 0"
  by (simp_all add: zero_client_def)

lemma NewClient_cases:
  assumes "NewClient parseIP toInt ifByName open_conn now udpAddr port opt h = Ok c"
  shows "client_ok c \<and> Running c \<and> ch c = [] \<and> ready c = None \<and> \<not> endSession c \<and> \<not> bDone c \<and>
    session c = [] \<and> cache_at (cache c) = (\<lambda>n. None) \<and> seqMax c = 0 \<and> lastSeq c = 0 \<and>
    seqNo c = (if NextSeq opt = 0 then 1 else NextSeq opt)"
  using assms
  by (auto simp: NewClient_def Let_def client_ok_def robin_ok_def split: option.splits if_splits)

end
