(* ===== verification/Delivery.thy ===== *)
theory Delivery
  imports Client_Lemmas
begin

section \<open>Reassembly: in order, without gaps, exactly once\<close>

text \<open>
  The abstract specification of the client is a set \<open>R\<close> of sequence numbers whose messages
  were processed and a stream \<open>src\<close> of messages by sequence number: what has been handed out
  is the stream from the first sequence number \<open>s0\<close> to the first one that is missing from
  \<open>R\<close>, whatever the order, the overlap and the repetition of the packets. \<open>reasm_inv\<close>
  relates the client's state to it: \<open>out\<close> is what \<open>Read\<close> returned so far, \<open>fl\<close> what
  \<open>doMsgBuf\<close> has advanced over but not yet published, and \<open>L\<close> bounds the stream below 2^64.
\<close>

subsection \<open>Specification\<close>

definition is_data :: "msgBuf \<Rightarrow> bool" where
  "is_data mb \<longleftrightarrow> msgCnt mb \<noteq> 0 \<and> msgCnt mb \<noteq> 0xffff"

definition indices :: "msgBuf \<Rightarrow> nat set" where
  "indices mb =
     (if is_data mb then {unat (bufSeqNo mb)..<unat (bufSeqNo mb) + unat (msgCnt mb)} else {})"

definition genuine :: "(nat \<Rightarrow> Message) \<Rightarrow> nat \<Rightarrow> msgBuf \<Rightarrow> bool" where
  "genuine src L mb \<longleftrightarrow>
     (if is_data mb then
        unpack mb = Ok (map src [unat (bufSeqNo mb)..<unat (bufSeqNo mb) + unat (msgCnt mb)]) \<and>
        unat (bufSeqNo mb) + unat (msgCnt mb) \<le> L
      else True)"

definition pending :: "Client \<Rightarrow> Message list" where
  "pending c = (case ready c of None \<Rightarrow> [] | Some r \<Rightarrow> r)"

definition first_missing :: "nat \<Rightarrow> nat set \<Rightarrow> nat \<Rightarrow> bool" where
  "first_missing s0 R n \<longleftrightarrow> s0 \<le> n \<and> n \<notin> R \<and> {s0..<n} \<subseteq> R"

definition reasm_inv ::
  "(nat \<Rightarrow> Message) \<Rightarrow> nat \<Rightarrow> nat \<Rightarrow> nat set \<Rightarrow> Message list \<Rightarrow> Message list \<Rightarrow> Client \<Rightarrow> bool" where
  "reasm_inv src s0 L R out fl c \<longleftrightarrow>
     cache_ok (cache c) \<and> s0 \<le> unat (seqNo c) \<and> unat (seqNo c) \<le> L \<and>
     out @ pending c @ fl = map src [s0..<unat (seqNo c)] \<and>
     (\<forall>n m. cache_at (cache c) n = Some m \<longrightarrow> m = src n \<and> n < L \<and> n \<in> R) \<and>
     (\<forall>n \<in> R. s0 \<le> n \<longrightarrow> n < unat (seqNo c) \<or> cache_at (cache c) n \<noteq> None) \<and>
     {s0..<unat (seqNo c)} \<subseteq> R \<and>
     cache_at (cache c) (unat (seqNo c)) = None"

lemma first_missing_unique: "first_missing s0 R m \<Longrightarrow> first_missing s0 R n \<Longrightarrow> m = n"
  unfolding first_missing_def by (metis atLeastLessThan_iff linorder_neqE_nat subsetD)

lemma reasm_inv_first_missing: "reasm_inv src s0 L R out fl c \<Longrightarrow> first_missing s0 R (unat (seqNo c))"
  by (auto simp: reasm_inv_def first_missing_def)

lemma reasm_inv_cong:
  assumes "seqNo c' = seqNo c" "cache c' = cache c" "ready c' = ready c"
  shows "reasm_inv src s0 L R out fl c' = reasm_inv src s0 L R out fl c"
  using assms by (simp add: reasm_inv_def pending_def)

lemma reasm_inv_insert:
  assumes "reasm_inv src s0 L R out fl c" "\<forall>n \<in> I. n < unat (seqNo c)"
  shows "reasm_inv src s0 L (R \<union> I) out fl c"
  using assms by (auto simp: reasm_inv_def)

subsection \<open>Sequence arithmetic\<close>

lemma unat_add_of_nat:
  "unat (a :: u64) + k < 18446744073709551616 \<Longrightarrow> unat (a + of_nat k) = unat a + k"
  by (simp add: unat_word_ariths unat_of_nat_u64)

lemma map_upt_append: "i \<le> j \<Longrightarrow> j \<le> k \<Longrightarrow> map f [i..<j] @ map f [j..<k] = map f [i..<k]"
  using upt_add_eq_append [of i j "k - j"] by (simp flip: map_append)

lemma is_run_src:
  assumes "is_run f n ms" "\<And>k m. f k = Some m \<Longrightarrow> m = src k"
  shows "ms = map src [n..<n + length ms]"
proof (rule nth_equalityI)
  fix i assume "i < length ms"
  then show "ms ! i = map src [n..<n + length ms] ! i"
    using assms(1) assms(2) [of "n + i" "ms ! i"] by (simp add: is_run_def)
qed simp

subsection \<open>Storing ahead of turn\<close>

lemma storeCache_effect:
  assumes "cache_ok (cache c)" "unat s + length buf < 18446744073709551616" "buf \<noteq> []"
  shows "\<exists>c'. storeCache buf s c = Ok (0, c') \<and> cache_ok (cache c') \<and>
    cache_at (cache c') = store_map (cache_at (cache c)) (unat s) buf \<and>
    seqNo c' = seqNo c \<and> ready c' = ready c \<and> seqMax c' = seqMax c \<and> reqLast c' = reqLast c \<and>
    nMissed c' = nMissed c"
proof -
  obtain r mc where mc: "store_loop Upset buf s False (cache c) = Ok (r, s + of_nat (length buf), mc)"
      "cache_ok mc" "cache_at mc = store_map (cache_at (cache c)) (unat s) buf"
    using pages.store_loop_effect [OF assms(1), of s buf False] assms(2) by fastforce
  obtain k where k: "length buf = Suc k" using assms(3) by (cases buf) auto
  have "unat (s + of_nat (length buf) - 1) = unat s + k"
    using unat_add_of_nat [of s k] assms(2) k by simp
  then have "IsNil (s + of_nat (length buf) - 1) mc = Ok False"
    using pages.isnil_law [OF mc(2)] k by (simp add: mc(3) store_map_def)
  with mc show ?thesis by (auto simp: storeCache_def Let_def)
qed

lemma reasm_inv_store:
  assumes "reasm_inv src s0 L R out fl c" "unat (seqNo c) < s" "s + n \<le> L"
    and "cache_ok (cache c')" "cache_at (cache c') = store_map (cache_at (cache c)) s (map src [s..<s + n])"
    and "seqNo c' = seqNo c" "ready c' = ready c"
  shows "reasm_inv src s0 L (R \<union> {s..<s + n}) out fl c'"
  using assms by (auto simp: reasm_inv_def pending_def store_map_def split: if_splits)

subsection \<open>Delivering\<close>

lemma deliver_effect:
  assumes inv: "reasm_inv src s0 L R out [] c" and L: "L < 18446744073709551616"
    and s: "unat s \<le> unat (seqNo c)" "unat (seqNo c) \<le> unat s + n" "unat s + n \<le> L"
    and res: "res = map src [unat s..<unat s + n]"
  shows "\<exists>res' c'. deliver s res c = (FPublish res', c') \<and>
    reasm_inv src s0 L (R \<union> {unat s..<unat s + n}) out res' c' \<and> ready c' = ready c \<and>
    unat s + n \<le> unat (seqNo c') \<and> cache c' = cache c"
proof -
  let ?f = "unat (seqNo c)" and ?e = "unat s + n"
  define res1 where "res1 = (if s < seqNo c then drop (unat (seqNo c - s)) res else res)"
  define s1 where "s1 = seqNo c + of_nat (length res1)"
  have off: "unat (seqNo c - s) = ?f - unat s"
    using s(1) by (simp add: unat_sub word_le_nat_alt)
  have res1: "res1 = map src [?f..<?e]"
    using s off by (auto simp: res1_def res drop_map word_less_nat_alt)
  then have s1: "unat s1 = ?e"
    using unat_add_of_nat [of "seqNo c" "length res1"] s L by (simp add: s1_def)
  have ck: "cache_ok (cache c)" and src: "\<And>k m. cache_at (cache c) k = Some m \<Longrightarrow> m = src k \<and> k < L"
    using inv by (auto simp: reasm_inv_def)
  obtain bb ms where bb: "popCache s1 c = Ok bb" "is_run (cache_at (cache c)) ?e ms"
      "ms = (case bb of None \<Rightarrow> [] | Some x \<Rightarrow> x)"
    using pages.merge_law [OF ck, of s1] s1 by (auto simp: popCache_def split: if_splits)
  have ms: "ms = map src [?e..<?e + length ms]" using bb(2) src by (intro is_run_src) auto
  have run: "\<forall>i < length ms. cache_at (cache c) (?e + i) \<noteq> None" "cache_at (cache c) (?e + length ms) = None"
    using bb(2) by (auto simp: is_run_def)
  have le: "?e + length ms \<le> L"
    using run(1) src s(3) by (cases ms rule: rev_cases) fastforce+
  define s2 where "s2 = s1 + of_nat (length ms)"
  have s2: "unat s2 = ?e + length ms"
    using unat_add_of_nat [of s1 "length ms"] s1 le L by (simp add: s2_def)
  have all: "res1 @ ms = map src [?f..<unat s2]"
    using map_upt_append [of ?f ?e "?e + length ms" src] s(2) res1 ms s2 by simp
  have notrange: "\<not> (s < seqNo c \<and> length res < unat (seqNo c - s))"
    using s off by (auto simp: res)
  obtain c' where d: "deliver s res c = (FPublish (res1 @ ms), c')"
      "seqNo c' = s2" "cache c' = cache c" "ready c' = ready c"
    using bb notrange
    by (cases bb) (auto simp: deliver_def Let_def res1_def [symmetric] s1_def [symmetric] s2_def)
  have pre: "out @ pending c = map src [s0..<?f]" "s0 \<le> ?f" using inv by (auto simp: reasm_inv_def)
  have "out @ pending c' @ (res1 @ ms) = (out @ pending c) @ res1 @ ms"
    using d(4) by (simp add: pending_def)
  also have "\<dots> = map src [s0..<unat s2]"
    unfolding pre(1) all using map_upt_append [OF pre(2), of "unat s2" src] s s2 by simp
  finally have "out @ pending c' @ (res1 @ ms) = map src [s0..<unat s2]" .
  moreover have "cache_at (cache c) n \<noteq> None" if "?e \<le> n" "n < unat s2" for n
    using run(1) that s2 by (metis add_diff_inverse_nat add_less_cancel_left not_le)
  moreover have "n \<in> R" if "?e \<le> n" "n < unat s2" for n
    using calculation(2) [OF that] inv by (auto simp: reasm_inv_def)
  moreover have "{s0..<unat s2} \<subseteq> R \<union> {unat s..<?e}"
  proof
    fix x assume x: "x \<in> {s0..<unat s2}"
    consider "x < ?f" | "?f \<le> x" "x < ?e" | "?e \<le> x" by linarith
    then show "x \<in> R \<union> {unat s..<?e}"
      using x inv s(1) calculation(3) [of x] by cases (auto simp: reasm_inv_def)
  qed
  ultimately have "reasm_inv src s0 L (R \<union> {unat s..<?e}) out (res1 @ ms) c'"
    using inv d s s2 le run(2) unfolding reasm_inv_def by auto
  with d s2 show ?thesis by auto
qed

subsection \<open>The handlers keep the invariant\<close>

definition in_flight :: "front \<Rightarrow> Message list" where
  "in_flight f = (case f of FPublish res \<Rightarrow> res | _ \<Rightarrow> [])"

lemma front_not_data:
  assumes "\<not> is_data mb" "doMsgBuf_front now mb c = (f, c')"
  shows "in_flight f = [] \<and> seqNo c' = seqNo c \<and> cache c' = cache c \<and> ready c' = ready c"
proof (cases "unpack mb")
  case (Ok res)
  with assms show ?thesis
    by (auto simp: doMsgBuf_front_def in_flight_def is_data_def Let_def split_beta split: if_splits)
qed (use assms in \<open>auto simp: doMsgBuf_front_def in_flight_def\<close>)

lemma front_data:
  assumes "is_data mb" "unpack mb = Ok res" "length res = unat (msgCnt mb)"
  shows "doMsgBuf_front now mb c =
    (let seqNext = bufSeqNo mb + ucast (msgCnt mb); seqF = seqNo c
     in if seqNext < seqF then (FReturn None, c\<lparr>nRepeats := nRepeats c + 1\<rparr>)
        else if seqF < bufSeqNo mb then
          (case storeCache res (bufSeqNo mb) c of
             Panic p \<Rightarrow> (FPanic p, c)
           | Err e \<Rightarrow> (FError e, c)
           | Ok (s', c2) \<Rightarrow>
               if s' \<le> seqF then (FReturn None, c2)
               else let (reqBuf, c3) = newReq now s' c2
                    in (FReturn reqBuf, c3\<lparr>nMissed := nMissed c3 + 1\<rparr>))
        else deliver (bufSeqNo mb) res c)"
  using assms by (simp add: doMsgBuf_front_def eos_update_def is_data_def Let_def)

lemma front_reasm:
  assumes inv: "reasm_inv src s0 L R out [] c" and L: "L < 18446744073709551616"
    and gen: "genuine src L mb" and front: "doMsgBuf_front now mb c = (f, c')"
  shows "reasm_inv src s0 L (R \<union> indices mb) out (in_flight f) c'"
proof (cases "is_data mb")
  case False
  with front_not_data [OF False front] inv show ?thesis
    by (simp add: indices_def reasm_inv_cong [of c' c])
next
  case True
  let ?s = "bufSeqNo mb" and ?n = "unat (msgCnt mb)"
  let ?res = "map src [unat ?s..<unat ?s + ?n]"
  have res: "unpack mb = Ok ?res" and le: "unat ?s + ?n \<le> L" and pos: "?n \<noteq> 0"
    using True gen by (auto simp: genuine_def is_data_def unat_eq_0)
  have "unat (ucast (msgCnt mb) :: u64) = ?n" by simp
  then have seqNext: "unat (?s + ucast (msgCnt mb)) = unat ?s + ?n"
    using le L by (simp add: unat_word_ariths)
  have ck: "cache_ok (cache c)" using inv by (simp add: reasm_inv_def)
  note front_eq = front [unfolded front_data [OF True res, simplified] Let_def]
  consider (old) "?s + ucast (msgCnt mb) < seqNo c"
    | (ahead) "\<not> ?s + ucast (msgCnt mb) < seqNo c" "seqNo c < ?s"
    | (now) "\<not> ?s + ucast (msgCnt mb) < seqNo c" "\<not> seqNo c < ?s"
    by blast
  then show ?thesis
  proof cases
    case old
    then have "f = FReturn None" "c' = c\<lparr>nRepeats := nRepeats c + 1\<rparr>" using front_eq by auto
    moreover have "\<forall>n \<in> indices mb. n < unat (seqNo c)"
      using old seqNext by (auto simp: indices_def word_less_nat_alt)
    ultimately show ?thesis
      using reasm_inv_insert [OF inv] reasm_inv_cong [of "c\<lparr>nRepeats := nRepeats c + 1\<rparr>" c]
      by (simp add: in_flight_def)
  next
    case ahead
    obtain c2 where c2: "storeCache ?res ?s c = Ok (0, c2)" "cache_ok (cache c2)"
        "cache_at (cache c2) = store_map (cache_at (cache c)) (unat ?s) ?res"
        "seqNo c2 = seqNo c" "ready c2 = ready c"
      using storeCache_effect [OF ck, of ?s ?res] le L pos by auto
    with ahead front_eq have "f = FReturn None" "c' = c2" by auto
    moreover have "reasm_inv src s0 L (R \<union> {unat ?s..<unat ?s + ?n}) out [] c2"
      using ahead(2) le c2 by (intro reasm_inv_store [OF inv]) (auto simp: word_less_nat_alt)
    ultimately show ?thesis using True by (simp add: in_flight_def indices_def)
  next
    case now
    have "unat ?s \<le> unat (seqNo c)" "unat (seqNo c) \<le> unat ?s + ?n"
      using now seqNext by (simp_all add: word_less_nat_alt)
    from deliver_effect [OF inv L this le refl] now front_eq True show ?thesis
      by (auto simp: in_flight_def indices_def)
  qed
qed

lemma publish_reasm:
  assumes "reasm_inv src s0 L R out res c"
  shows "reasm_inv src s0 L R out [] (publish res c)"
  using assms by (auto simp: reasm_inv_def pending_def publish_def split: option.splits)

lemma doMsgBuf_reasm:
  assumes "reasm_inv src s0 L R out [] c" "L < 18446744073709551616" "genuine src L mb"
    and "doMsgBuf now mb c = (r, c')"
  shows "reasm_inv src s0 L (R \<union> indices mb) out [] c'"
proof -
  obtain f c1 where f: "doMsgBuf_front now mb c = (f, c1)" by fastforce
  from front_reasm [OF assms(1-3) f] assms(4) f show ?thesis
    by (cases f) (auto simp: doMsgBuf_def in_flight_def intro: publish_reasm)
qed

text \<open>What \<open>Read\<close> hands out in a round.\<close>

definition handed :: "read_result \<Rightarrow> Message list" where
  "handed r = (case r of ReadMsgs ms s \<Rightarrow> ms | _ \<Rightarrow> [])"

lemma read_round_reasm:
  assumes "reasm_inv src s0 L R out fl c" "read_round c = (r, c')"
  shows "reasm_inv src s0 L R (out @ handed r) fl c'"
  using assms
  by (auto simp: read_round_def reasm_inv_def pending_def handed_def Let_def split: option.splits if_splits)

end
