(* ===== verification/Client_System.thy ===== *)
theory Client_System
  imports Delivery Step_System
begin

section \<open>The client as a concurrent system\<close>

text \<open>
  The three parties that share a client: the receive goroutine (\<open>doMsgLoop\<close>), the worker
  goroutine (\<open>requestLoop\<close>) and the caller of \<open>Read\<close>. The state adds to the client where
  the worker and the reader are between two critical sections: \<open>flying\<close> are messages
  \<open>doMsgBuf\<close> has advanced over and not yet published (it is before the lock), \<open>taken\<close> what
  \<open>Read\<close> took under the lock, with the \<open>lastSeq\<close> it loaded, before it looks at \<open>bDone\<close>.
  \<open>received\<close> and \<open>handedOut\<close> are ghost state: the sequence numbers whose messages were
  processed, and everything \<open>Read\<close> returned.

  The network delivers any datagram of \<open>wire\<close> in any order, any number of times or never.
  A worker or reader step is one section between two points where the other can observe it.
\<close>

record sys =
  client :: Client
  flying :: "Message list option"
  taken :: "(Message list option \<times> u64) option"
  received :: "nat set"
  handedOut :: "Message list"

fun datagrams :: "recv_event \<Rightarrow> byte list list" where
  "datagrams (RingPacket buff rAddr) = [buff]"
| "datagrams (MRecvOk bufs rAddr) = bufs"
| "datagrams (MRecvErr e) = []"
| "datagrams (RecvOk buff n rAddr) = [take n buff]"
| "datagrams (RecvErr e) = []"

text \<open>The two halves of a round of \<open>Read\<close>.\<close>

definition read_take :: "Client \<Rightarrow> (Message list option \<times> u64) \<times> Client" where
  "read_take c = ((ready c, lastSeq c), c\<lparr>ready := None\<rparr>)"

definition read_check :: "Message list option \<times> u64 \<Rightarrow> Client \<Rightarrow> Client" where
  "read_check t c =
     (let (res, s) = t; n = (case res of None \<Rightarrow> 0 | Some r \<Rightarrow> length r)
      in if bDone c \<and> seqNo c \<le> s + of_nat n then c\<lparr>Running := False\<rparr> else c)"

definition opt_list :: "'a list option \<Rightarrow> 'a list" where
  "opt_list x = (case x of None \<Rightarrow> [] | Some r \<Rightarrow> r)"

lemma opt_list_simps [simp]: "opt_list None = []" "opt_list (Some r) = r"
  by (simp_all add: opt_list_def)

text \<open>Without interleaving the two halves are a round of \<open>Read\<close>.\<close>

lemma read_round_split:
  "Running c \<Longrightarrow> read_round c =
    (case fst (fst (read_take c)) of None \<Rightarrow> ReadSpin | Some r \<Rightarrow> ReadMsgs r (snd (fst (read_take c))),
     read_check (fst (read_take c)) (snd (read_take c)))"
  by (auto simp: read_round_def read_take_def read_check_def Let_def split: option.split)

inductive sys_step :: "(byte list \<Rightarrow> bool) \<Rightarrow> sys \<Rightarrow> sys \<Rightarrow> bool" for wire :: "byte list \<Rightarrow> bool" where
  receive: "recv_fits ev \<Longrightarrow> \<forall>p \<in> set (datagrams ev). wire p \<Longrightarrow>
     doMsgLoop_round now ev (client s) = Some (r, c') \<Longrightarrow>
     sys_step wire s (s\<lparr>client := c'\<rparr>)"
| tick: "flying s = None \<Longrightarrow> Running (client s) \<Longrightarrow>
     on_tick dial now (client s) = Ok (out, c') \<Longrightarrow>
     sys_step wire s (s\<lparr>client := c'\<rparr>)"
| work_return: "flying s = None \<Longrightarrow> Running (client s) \<Longrightarrow> ch (client s) = mb # rest \<Longrightarrow>
     doMsgBuf_front now mb ((client s)\<lparr>ch := rest\<rparr>) = (FReturn req, c1) \<Longrightarrow>
     maybe_request dial req c1 = Ok (out, c') \<Longrightarrow>
     sys_step wire s (s\<lparr>client := c', received := received s \<union> indices mb\<rparr>)"
| work_error: "flying s = None \<Longrightarrow> Running (client s) \<Longrightarrow> ch (client s) = mb # rest \<Longrightarrow>
     doMsgBuf_front now mb ((client s)\<lparr>ch := rest\<rparr>) = (FError e, c1) \<Longrightarrow>
     c' = (if lastLogTime c1 < time_unix now then c1\<lparr>lastLogTime := time_unix now\<rparr> else c1) \<Longrightarrow>
     sys_step wire s (s\<lparr>client := c', received := received s \<union> indices mb\<rparr>)"
| work_front: "flying s = None \<Longrightarrow> Running (client s) \<Longrightarrow> ch (client s) = mb # rest \<Longrightarrow>
     doMsgBuf_front now mb ((client s)\<lparr>ch := rest\<rparr>) = (FPublish res, c') \<Longrightarrow>
     sys_step wire s (s\<lparr>client := c', flying := Some res, received := received s \<union> indices mb\<rparr>)"
| work_publish: "flying s = Some res \<Longrightarrow>
     sys_step wire s (s\<lparr>client := publish res (client s), flying := None\<rparr>)"
| reader_take: "taken s = None \<Longrightarrow> Running (client s) \<Longrightarrow> read_take (client s) = (t, c') \<Longrightarrow>
     sys_step wire s (s\<lparr>client := c', taken := Some t\<rparr>)"
| reader_check: "taken s = Some t \<Longrightarrow>
     sys_step wire s (s\<lparr>client := read_check t (client s), taken := None,
       handedOut := handedOut s @ opt_list (fst t)\<rparr>)"

definition started :: "u64 \<Rightarrow> sys \<Rightarrow> bool" where
  "started s0 s \<longleftrightarrow>
     flying s = None \<and> taken s = None \<and> received s = {} \<and> handedOut s = [] \<and>
     (\<exists>parseIP toInt ifByName open_conn now udpAddr port opt h.
        s0 = (if NextSeq opt = 0 then 1 else NextSeq opt) \<and>
        NewClient parseIP toInt ifByName open_conn now udpAddr port opt h = Ok (client s))"

subsection \<open>Datagrams of a stream\<close>

definition genuine_dgram :: "(nat \<Rightarrow> Message) \<Rightarrow> nat \<Rightarrow> byte list \<Rightarrow> bool" where
  "genuine_dgram src L p =
     (case DecodeHead p of
        Ok h \<Rightarrow> genuine src L \<lparr>bufSeqNo = SeqNo h, msgCnt = MessageCnt h, dataBuf = drop 20 p\<rparr>
      | _ \<Rightarrow> True)"

subsection \<open>The invariant\<close>

definition eos_ok :: "Client \<Rightarrow> bool" where
  "eos_ok c \<longleftrightarrow> (bDone c \<longrightarrow> endSession c \<and> seqEnd c \<le> seqNo c)"

definition sys_inv :: "(nat \<Rightarrow> Message) \<Rightarrow> nat \<Rightarrow> nat \<Rightarrow> sys \<Rightarrow> bool" where
  "sys_inv src s0 L s \<longleftrightarrow>
     client_ok (client s) \<and> eos_ok (client s) \<and> list_all (genuine src L) (ch (client s)) \<and>
     reasm_inv src s0 L (received s)
       (handedOut s @ (case taken s of None \<Rightarrow> [] | Some t \<Rightarrow> opt_list (fst t)))
       (opt_list (flying s)) (client s)"

lemma started_inv:
  assumes "started s0 s" "unat s0 \<le> L"
  shows "sys_inv src (unat s0) L s"
proof -
  from assms(1) obtain parseIP toInt ifByName open_conn now udpAddr port opt h where
    st: "flying s = None" "taken s = None" "received s = {}" "handedOut s = []"
    and s0: "s0 = (if NextSeq opt = 0 then 1 else NextSeq opt)"
    and new: "NewClient parseIP toInt ifByName open_conn now udpAddr port opt h = Ok (client s)"
    unfolding started_def by blast
  from NewClient_cases [OF new] have "client_ok (client s)" "seqNo (client s) = s0"
    "ready (client s) = None" "\<not> bDone (client s)" "ch (client s) = []"
    "cache_at (cache (client s)) = (\<lambda>n. None)"
    using s0 by auto
  with st assms(2) show ?thesis
    by (simp add: sys_inv_def eos_ok_def reasm_inv_def pending_def client_ok_def)
qed

subsection \<open>Receiving keeps the invariant\<close>

text \<open>
  A property of the buffers that a datagram queues: what receiving does to the channel is the
  same for every property.
\<close>

definition queues :: "(msgBuf \<Rightarrow> bool) \<Rightarrow> byte list \<Rightarrow> bool" where
  "queues Q p \<longleftrightarrow>
     (\<forall>h b. DecodeHead p = Ok h \<longrightarrow> (MessageCnt h \<noteq> 0 \<and> MessageCnt h \<noteq> 0xffff \<longrightarrow> b = drop 20 p) \<longrightarrow>
        Q \<lparr>bufSeqNo = SeqNo h, msgCnt = MessageCnt h, dataBuf = b\<rparr>)"

lemma genuine_queues: "genuine_dgram src L p \<Longrightarrow> queues (genuine src L) p"
  by (auto simp: queues_def genuine_dgram_def genuine_def is_data_def unpack_def)

lemma gotBuff_queues:
  assumes "gotBuff now buff n c = Some (r, c')" "queues Q (take n buff)"
    "list_all Q (ch c)"
  shows "same_core c c' \<and> list_all Q (ch c')"
  using gotBuff_cases [OF assms(1)] assms(2,3)
  by (auto simp: queues_def)

lemma handle_packet_queues:
  assumes "handle_packet now buff n rAddr c = Some (r, c')" "queues Q (take n buff)"
    "list_all Q (ch c)"
  shows "same_core c c' \<and> list_all Q (ch c')"
proof -
  obtain r1 c1 where g: "gotBuff now buff n c = Some (r1, c1)"
    using assms(1) by (auto simp: handle_packet_def split: option.splits)
  have "same_core c1 (learn_server rAddr c1)" "same_core c1 (log_error now c1)"
    by (simp_all add: learn_server_def log_error_def same_core_def)
  moreover have "ch (learn_server rAddr c1) = ch c1" "ch (log_error now c1) = ch c1"
    by (simp_all add: learn_server_def log_error_def)
  ultimately show ?thesis
    using gotBuff_queues [OF g assms(2,3)] g assms(1)
    by (cases r1) (auto simp: handle_packet_def intro: same_core_trans)
qed

lemma handle_batch_queues:
  assumes "handle_batch now bufs rAddr c = Some (r, c')" "\<forall>p \<in> set bufs. queues Q p"
    "list_all Q (ch c)"
  shows "same_core c c' \<and> list_all Q (ch c')"
  using assms
proof (induction bufs arbitrary: c)
  case Nil
  then show ?case by auto
next
  case (Cons buf bufs)
  then obtain r1 c1 where h: "handle_packet now buf (length buf) rAddr c = Some (r1, c1)"
    by (auto split: option.splits)
  from handle_packet_queues [OF h, of Q] Cons.prems
  have c1: "same_core c c1" "list_all Q (ch c1)" by auto
  show ?case
    using Cons.IH [of c1] Cons.prems h c1 by (cases r1) (auto intro: same_core_trans)
qed

lemma doMsgLoop_round_queues:
  assumes "doMsgLoop_round now ev c = Some (r, c')" "\<forall>p \<in> set (datagrams ev). queues Q p"
    "list_all Q (ch c)"
  shows "same_core c c' \<and> list_all Q (ch c')"
proof (cases ev)
  case (RingPacket buff rAddr)
  with assms show ?thesis using handle_packet_queues [of now buff "length buff"] by simp
next
  case (MRecvOk bufs rAddr)
  with assms show ?thesis using handle_batch_queues by simp
next
  case (RecvOk buff n rAddr)
  with assms show ?thesis using handle_packet_queues [of now buff n] by simp
qed (use assms in \<open>auto simp: log_error_def same_core_def split: if_splits\<close>)

lemma doMsgLoop_round_effect:
  assumes "doMsgLoop_round now ev c = Some (r, c')" "\<forall>p \<in> set (datagrams ev). genuine_dgram src L p"
    "list_all (genuine src L) (ch c)"
  shows "same_core c c' \<and> list_all (genuine src L) (ch c')"
  using doMsgLoop_round_queues [OF assms(1)] assms(2,3) genuine_queues by blast

subsection \<open>The worker keeps the invariant\<close>

lemma maybe_request_effect:
  assumes "maybe_request dial req c = Ok (out, c')"
  shows "same_core c c' \<and> ch c' = ch c"
  using assms request_frame [of dial _ c out c']
  by (auto simp: maybe_request_def same_core_def split: option.splits)

lemma on_tick_effect:
  assumes "on_tick dial now c = Ok (out, c')"
  shows "same_core c c' \<and> ch c' = ch c"
proof (cases "seqNo c < seqMax c")
  case True
  let ?c1 = "snd (newReq now (seqMax c) c)"
  have "maybe_request dial (fst (newReq now (seqMax c) c)) ?c1 = Ok (out, c')"
    using True assms by (simp add: on_tick_def split_beta)
  from maybe_request_effect [OF this] show ?thesis by (simp add: same_core_def)
next
  case False
  with assms show ?thesis by (simp add: on_tick_def)
qed

lemma eos_update_eos: "eos_ok c \<Longrightarrow> eos_ok (eos_update mb c)"
  by (auto simp: eos_ok_def eos_update_def Let_def)

lemma deliver_eos:
  assumes "deliver s res c = (f, c')" "eos_ok c" "seqNo c \<le> seqNo c'"
  shows "eos_ok c' \<and> ch c' = ch c"
  using assms
  by (fastforce simp: deliver_def eos_ok_def Let_def split: if_splits outcome.splits option.splits)

lemma storeCache_eos:
  "storeCache buf s c = Ok (s', c') \<Longrightarrow>
    bDone c' = bDone c \<and> endSession c' = endSession c \<and> seqEnd c' = seqEnd c \<and> ch c' = ch c \<and>
    seqNo c' = seqNo c"
  by (auto simp: storeCache_def Let_def outcome_simps split: if_splits)

lemma front_eos:
  assumes inv: "reasm_inv src s0 L R out [] c" and L: "L < 18446744073709551616"
    and gen: "genuine src L mb" and front: "doMsgBuf_front now mb c = (f, c')" and eos: "eos_ok c"
  shows "eos_ok c' \<and> ch c' = ch c"
proof (cases "is_data mb")
  case False
  show ?thesis
  proof (cases "unpack mb")
    case (Ok res)
    with False front eos_update_eos [OF eos, of mb] show ?thesis
      by (auto simp: doMsgBuf_front_def is_data_def eos_ok_def Let_def split_beta split: if_splits)
  qed (use front eos in \<open>auto simp: doMsgBuf_front_def eos_ok_def\<close>)
next
  case True
  let ?s = "bufSeqNo mb" and ?n = "unat (msgCnt mb)"
  let ?res = "map src [unat ?s..<unat ?s + ?n]"
  have res: "unpack mb = Ok ?res" and le: "unat ?s + ?n \<le> L" using True gen by (auto simp: genuine_def)
  have seqNext: "unat (?s + ucast (msgCnt mb)) = unat ?s + ?n"
    using le L by (simp add: unat_word_ariths)
  have mono: "seqNo c \<le> seqNo c'" if "deliver ?s ?res c = (f, c')"
      "\<not> ?s + ucast (msgCnt mb) < seqNo c" "\<not> seqNo c < ?s"
  proof -
    have "unat ?s \<le> unat (seqNo c)" "unat (seqNo c) \<le> unat ?s + ?n"
      using that seqNext by (simp_all add: word_less_nat_alt)
    with deliver_effect [OF inv L this le refl] that(1) show ?thesis
      by (auto simp: word_le_nat_alt)
  qed
  show ?thesis
    using front [unfolded front_data [OF True res, simplified] Let_def] eos mono deliver_eos
      storeCache_eos [of ?res ?s c]
    by (auto simp: eos_ok_def split_beta split: if_splits outcome.splits)
qed

subsection \<open>Every step keeps the invariant\<close>

text \<open>What the reader holds or has handed out.\<close>

definition out_of :: "sys \<Rightarrow> Message list" where
  "out_of s = handedOut s @ (case taken s of None \<Rightarrow> [] | Some t \<Rightarrow> opt_list (fst t))"

lemma sys_invD:
  assumes "sys_inv src s0 L s"
  shows "client_ok (client s)" "eos_ok (client s)" "list_all (genuine src L) (ch (client s))"
    "reasm_inv src s0 L (received s) (out_of s) (opt_list (flying s)) (client s)"
  using assms by (simp_all add: sys_inv_def out_of_def)

lemma sys_inv_core:
  assumes "sys_inv src s0 L s" "same_core (client s) c'" "client_ok c'"
    "list_all (genuine src L) (ch c')"
  shows "sys_inv src s0 L (s\<lparr>client := c'\<rparr>)"
  using assms reasm_inv_cong [of c' "client s"]
  by (simp add: sys_inv_def eos_ok_def same_core_def)

lemma work_step:
  assumes inv: "sys_inv src s0 L s" and L: "L < 18446744073709551616" and fl: "flying s = None"
    and ch: "ch (client s) = mb # rest"
    and front: "doMsgBuf_front now mb ((client s)\<lparr>ch := rest\<rparr>) = (f, c1)"
    and core: "same_core c1 c'" "ch c' = ch c1" "client_ok c'"
    and fly: "opt_list fl' = in_flight f"
  shows "sys_inv src s0 L (s\<lparr>client := c', flying := fl', received := received s \<union> indices mb\<rparr>)"
proof -
  let ?c = "(client s)\<lparr>ch := rest\<rparr>"
  note I = sys_invD [OF inv]
  have gen: "genuine src L mb" "list_all (genuine src L) rest" using I(3) ch by simp_all
  have re: "reasm_inv src s0 L (received s) (out_of s) [] ?c"
    using I(4) fl reasm_inv_cong [of ?c "client s"] by simp
  have eos: "eos_ok ?c" using I(2) by (simp add: eos_ok_def)
  have "reasm_inv src s0 L (received s \<union> indices mb) (out_of s) (in_flight f) c'"
    using front_reasm [OF re L gen(1) front] core(1) reasm_inv_cong [of c' c1]
    by (simp add: same_core_def)
  moreover have "eos_ok c'" "ch c' = rest"
    using front_eos [OF re L gen(1) front eos] core(1,2) by (auto simp: same_core_def eos_ok_def)
  ultimately show ?thesis using core(3) gen(2) fly by (simp add: sys_inv_def out_of_def)
qed

lemma work_ok:
  assumes "client_ok c" "ch c = mb # rest" "doMsgBuf_front now mb (c\<lparr>ch := rest\<rparr>) = (f, c1)"
  shows "client_ok c1"
  using doMsgBuf_front_ok [OF _ assms(3)] assms(1,2) by (simp add: client_ok_def robin_ok_def)

lemma sys_step_inv:
  assumes step: "sys_step wire s t" and inv: "sys_inv src s0 L s"
    and wire: "\<forall>p. wire p \<longrightarrow> genuine_dgram src L p" and L: "L < 18446744073709551616"
  shows "sys_inv src s0 L t"
  using step inv
proof cases
  case (receive ev now r c')
  have c': "same_core (client s) c' \<and> list_all (genuine src L) (ch c')"
    using receive wire sys_invD(3) [OF inv] by (intro doMsgLoop_round_effect) auto
  have "client_ok c'"
    using doMsgLoop_round_ok [OF sys_invD(1) [OF inv] receive(4) receive(2)] by simp
  with c' show ?thesis unfolding receive(1) by (intro sys_inv_core [OF inv]) auto
next
  case (tick dial now out c')
  have "client_ok c'" using on_tick_ok [OF sys_invD(1) [OF inv], of dial now] tick by auto
  with on_tick_effect [OF tick(4)] sys_invD(3) [OF inv] show ?thesis
    unfolding tick(1) by (intro sys_inv_core [OF inv]) auto
next
  case (work_return mb rest now req c1 dial out c')
  have ok: "client_ok c'"
    using maybe_request_ok [OF work_ok [OF sys_invD(1) [OF inv] work_return(4,5)], of dial req]
      work_return(6) by auto
  note eff = maybe_request_effect [OF work_return(6)]
  have "sys_inv src s0 L (s\<lparr>client := c', flying := None, received := received s \<union> indices mb\<rparr>)"
    using eff ok by (intro work_step [OF inv L work_return(2,4,5)]) (auto simp: in_flight_def)
  then show ?thesis using work_return(1,2) by (simp add: sys_inv_def)
next
  case (work_error mb rest now e c1 c')
  have ok: "client_ok c'"
    using work_ok [OF sys_invD(1) [OF inv] work_error(4,5)] work_error(6)
    by (simp add: client_ok_def robin_ok_def)
  have "sys_inv src s0 L (s\<lparr>client := c', flying := None, received := received s \<union> indices mb\<rparr>)"
    using ok work_error(6)
    by (intro work_step [OF inv L work_error(2,4,5)]) (auto simp: in_flight_def same_core_def)
  then show ?thesis using work_error(1,2) by (simp add: sys_inv_def)
next
  case (work_front mb rest now res c')
  have ok: "client_ok c'" by (rule work_ok [OF sys_invD(1) [OF inv] work_front(4,5)])
  show ?thesis
    unfolding work_front(1)
    by (rule work_step [OF inv L work_front(2,4,5) _ _ ok]) (auto simp: in_flight_def)
next
  case (work_publish res)
  note I = sys_invD [OF inv]
  have "reasm_inv src s0 L (received s) (out_of s) [] (publish res (client s))"
    using I(4) work_publish by (intro publish_reasm) simp
  with I work_publish(1) show ?thesis
    by (simp add: sys_inv_def out_of_def client_ok_def robin_ok_def eos_ok_def)
next
  case (reader_take u c')
  note I = sys_invD [OF inv]
  have "reasm_inv src s0 L (received s) (handedOut s @ opt_list (ready (client s)))
      (opt_list (flying s)) ((client s)\<lparr>ready := None\<rparr>)"
    using I(4) reader_take
    by (auto simp: reasm_inv_def pending_def out_of_def opt_list_def split: option.splits)
  with I reader_take show ?thesis
    by (auto simp: sys_inv_def read_take_def client_ok_def robin_ok_def eos_ok_def)
next
  case (reader_check u)
  note I = sys_invD [OF inv]
  have eq: "seqNo (read_check u (client s)) = seqNo (client s)"
    "cache (read_check u (client s)) = cache (client s)"
    "ready (read_check u (client s)) = ready (client s)"
    "ch (read_check u (client s)) = ch (client s)"
    "reqSrv (read_check u (client s)) = reqSrv (client s)"
    "robinN (read_check u (client s)) = robinN (client s)"
    "bDone (read_check u (client s)) = bDone (client s)"
    "endSession (read_check u (client s)) = endSession (client s)"
    "seqEnd (read_check u (client s)) = seqEnd (client s)"
    by (simp_all add: read_check_def Let_def split_beta)
  with I reader_check reasm_inv_cong [OF eq(1-3)] client_ok_cong [OF eq(2,4,5,6)] show ?thesis
    by (simp add: sys_inv_def out_of_def eos_ok_def)
qed

subsection \<open>Executing schedules\<close>

text \<open>
  An executable form of the step relation: a schedule names who moves next, and \<open>exec\<close>
  makes that step when it is enabled. Every state a schedule leads to is reachable.
\<close>

datatype act = AReceive int recv_event | ATick int | AWork int | APublish | ATake | ACheck

fun exec :: "(UDPAddr \<Rightarrow> bool) \<Rightarrow> (byte list \<Rightarrow> bool) \<Rightarrow> act \<Rightarrow> sys \<Rightarrow> sys option" where
  "exec dial wire (AReceive now ev) s =
     (if recv_fits ev \<and> list_all wire (datagrams ev) then
        map_option (\<lambda>(r, c'). s\<lparr>client := c'\<rparr>) (doMsgLoop_round now ev (client s))
      else None)"
| "exec dial wire (ATick now) s =
     (if flying s = None \<and> Running (client s) then
        (case on_tick dial now (client s) of Ok (out, c') \<Rightarrow> Some (s\<lparr>client := c'\<rparr>) | _ \<Rightarrow> None)
      else None)"
| "exec dial wire (AWork now) s =
     (if flying s = None \<and> Running (client s) then
        (case ch (client s) of
           [] \<Rightarrow> None
         | mb # rest \<Rightarrow>
             let R = received s \<union> indices mb
             in (case doMsgBuf_front now mb ((client s)\<lparr>ch := rest\<rparr>) of
                   (FReturn req, c1) \<Rightarrow>
                     (case maybe_request dial req c1 of
                        Ok (out, c') \<Rightarrow> Some (s\<lparr>client := c', received := R\<rparr>) | _ \<Rightarrow> None)
                 | (FError e, c1) \<Rightarrow>
                     Some (s\<lparr>client := if lastLogTime c1 < time_unix now
                       then c1\<lparr>lastLogTime := time_unix now\<rparr> else c1, received := R\<rparr>)
                 | (FPublish res, c1) \<Rightarrow> Some (s\<lparr>client := c1, flying := Some res, received := R\<rparr>)
                 | (FPanic p, c1) \<Rightarrow> None))
      else None)"
| "exec dial wire APublish s =
     map_option (\<lambda>res. s\<lparr>client := publish res (client s), flying := None\<rparr>) (flying s)"
| "exec dial wire ATake s =
     (if taken s = None \<and> Running (client s) then
        let (t, c') = read_take (client s) in Some (s\<lparr>client := c', taken := Some t\<rparr>)
      else None)"
| "exec dial wire ACheck s =
     map_option (\<lambda>t. s\<lparr>client := read_check t (client s), taken := None,
       handedOut := handedOut s @ opt_list (fst t)\<rparr>) (taken s)"

fun run :: "(UDPAddr \<Rightarrow> bool) \<Rightarrow> (byte list \<Rightarrow> bool) \<Rightarrow> act list \<Rightarrow> sys \<Rightarrow> sys option" where
  "run dial wire [] s = Some s"
| "run dial wire (a # as) s = (case exec dial wire a s of None \<Rightarrow> None | Some t \<Rightarrow> run dial wire as t)"

lemma exec_work:
  assumes "exec dial wire (AWork now) s = Some t"
  shows "sys_step wire s t"
proof -
  obtain mb rest f c1 where w: "flying s = None" "Running (client s)" "ch (client s) = mb # rest"
      "doMsgBuf_front now mb ((client s)\<lparr>ch := rest\<rparr>) = (f, c1)"
    using assms by (fastforce split: if_splits list.splits)
  show ?thesis
  proof (cases f)
    case (FReturn req)
    then obtain out c' where c': "maybe_request dial req c1 = Ok (out, c')"
        "t = s\<lparr>client := c', received := received s \<union> indices mb\<rparr>"
      using assms w by (auto simp: Let_def split: outcome.splits)
    show ?thesis
      unfolding c'(2) by (rule sys_step.work_return [OF w(1-3) _ c'(1)]) (use w(4) FReturn in simp)
  next
    case (FError e)
    then show ?thesis
      using assms w sys_step.work_error [OF w(1-3), of now e c1 _ wire] by (auto simp: Let_def)
  next
    case (FPublish res)
    then show ?thesis
      using assms w sys_step.work_front [OF w(1-3), of now res c1 wire] by (auto simp: Let_def)
  next
    case (FPanic p)
    then show ?thesis using assms w by (simp add: Let_def)
  qed
qed

lemma exec_sound:
  assumes "exec dial wire a s = Some t"
  shows "sys_step wire s t"
proof (cases a)
  case (AReceive now ev)
  with assms show ?thesis
    using sys_step.receive [of ev wire now s] by (auto simp: list_all_iff split: if_splits)
next
  case (ATick now)
  with assms show ?thesis
    using sys_step.tick [of s dial now] by (auto split: if_splits outcome.splits)
next
  case (AWork now)
  with assms show ?thesis using exec_work by blast
next
  case APublish
  with assms show ?thesis using sys_step.work_publish [of s] by auto
next
  case ATake
  with assms show ?thesis
    using sys_step.reader_take [of s] by (auto split: if_splits prod.splits)
next
  case ACheck
  with assms show ?thesis using sys_step.reader_check [of s] by auto
qed

lemma run_reachable:
  "run dial wire as s = Some t \<Longrightarrow> reachable init (sys_step wire) s \<Longrightarrow> reachable init (sys_step wire) t"
proof (induction as arbitrary: s)
  case (Cons a as)
  then show ?case
    using exec_sound reach_step by (fastforce split: option.splits)
qed simp

end
