(* ===== verification/Client_Props.thy ===== *)
theory Client_Props
  imports Client_System
begin

section \<open>What the client guarantees\<close>

text \<open>
  The invariant of the client system, obtained from the locale of step systems for a network
  that only carries datagrams of one stream. The properties of the client follow: delivery in
  order, exactly once and without gaps, completeness, the end of the session.
\<close>

subsection \<open>The invariant in every reachable state\<close>

definition client_start :: "u64 \<Rightarrow> nat \<Rightarrow> sys \<Rightarrow> bool" where
  "client_start s0 L s \<longleftrightarrow> started s0 s \<and> unat s0 \<le> L \<and> L < 18446744073709551616"

interpretation honest_net:
  step_system "client_start s0 L" "sys_step (genuine_dgram src L)"
    "\<lambda>s. L < 18446744073709551616 \<and> sys_inv src (unat s0) L s"
  for s0 L src
  by unfold_locales (auto simp: client_start_def intro: started_inv sys_step_inv)

lemma honest_inv:
  assumes "reachable (client_start s0 L) (sys_step (genuine_dgram src L)) s"
  shows "sys_inv src (unat s0) L s"
  using honest_net.reachable_inv [OF assms] by simp

lemma started_ok: "started s0 s \<Longrightarrow> client_ok (client s)"
  unfolding started_def using NewClient_cases by blast

lemma sys_step_ok:
  assumes "sys_step wire s t" "client_ok (client s)"
  shows "client_ok (client t)"
  using assms
proof cases
  case (receive ev now r c')
  with assms(2) doMsgLoop_round_ok show ?thesis by auto
next
  case (tick dial now out c')
  with on_tick_ok [OF assms(2), of dial now] show ?thesis by auto
next
  case (work_return mb rest now req c1 dial out c')
  with maybe_request_ok [OF work_ok [OF assms(2) work_return(4,5)], of dial req] show ?thesis by auto
next
  case (work_error mb rest now e c1 c')
  with work_ok [OF assms(2) work_error(4,5)] show ?thesis by (simp add: client_ok_def robin_ok_def)
next
  case (work_front mb rest now res c')
  with work_ok [OF assms(2) work_front(4,5)] show ?thesis by simp
qed (use assms(2) in \<open>auto simp: client_ok_def robin_ok_def read_take_def read_check_def Let_def split_beta\<close>)

subsection \<open>A session of two messages\<close>

text \<open>
  Messages 1 and 2 of a session \<open>test0\<close> that ends at 3, sent as three packets: message 1,
  the end of session, message 2.
\<close>

definition demo_src :: "nat \<Rightarrow> Message" where
  "demo_src i = \<lparr>Data = [of_nat i]\<rparr>"

definition demo_head :: "byte \<Rightarrow> byte \<Rightarrow> byte \<Rightarrow> byte list" where
  "demo_head s n1 n2 = [116, 101, 115, 116, 48, 32, 32, 32, 32, 32, 0, 0, 0, 0, 0, 0, 0, s, n1, n2]"

definition demo_packets :: "byte list list" where
  "demo_packets = [demo_head 1 0 1 @ [0, 1, 1], demo_head 3 255 255, demo_head 2 0 1 @ [0, 1, 2]]"

definition demo_addr :: UDPAddr where
  "demo_addr = \<lparr>IP = [10, 0, 0, 1], Port = 5858\<rparr>"

definition demo_new :: "Client outcome" where
  "demo_new = NewClient (\<lambda>a. [224, 0, 0, 1]) (\<lambda>a. 0) (\<lambda>i. None) (\<lambda>ip p ifn. None) 0
     ''224.0.0.1'' 5858 \<lparr>Srvs = [], IfName = [], NextSeq = 0\<rparr> 7"

definition demo_start :: sys where
  "demo_start = \<lparr>client = (case demo_new of Ok c \<Rightarrow> c | _ \<Rightarrow> zero_client),
     flying = None, taken = None, received = {}, handedOut = []\<rparr>"

definition demo_run :: "act list \<Rightarrow> sys option" where
  "demo_run as = run (\<lambda>a. False) (genuine_dgram demo_src 3) as demo_start"

text \<open>All packets arrive, the worker processes them, the reader reads once.\<close>

definition demo_good :: "act list" where
  "demo_good = [AReceive 0 (MRecvOk demo_packets demo_addr), AWork 0, APublish, AWork 0, AWork 0,
     APublish, ATake, ACheck]"

text \<open>The reader takes the lock between the two halves of \<open>doMsgBuf\<close> for message 2.\<close>

definition demo_race :: "act list" where
  "demo_race = [AReceive 0 (MRecvOk demo_packets demo_addr), AWork 0, APublish, AWork 0, AWork 0,
     ATake, ACheck, APublish]"

lemma demo_started: "client_start 1 3 demo_start"
proof -
  have "demo_new = Ok (client demo_start)"
    by (simp add: demo_start_def demo_new_def NewClient_def Let_def)
  then show ?thesis
    unfolding client_start_def started_def demo_new_def
    by (auto simp: demo_start_def intro!: exI)
qed

lemma demo_reachable:
  assumes "demo_run as = Some s"
  shows "reachable (client_start 1 3) (sys_step (genuine_dgram demo_src 3)) s"
  using assms demo_started reach_init run_reachable unfolding demo_run_def by metis

lemma demo_good_run:
  "\<exists>s. demo_run demo_good = Some s \<and> handedOut s = [demo_src 1, demo_src 2] \<and> received s = {1, 2} \<and>
    flying s = None \<and> taken s = None \<and> pending (client s) = [] \<and> bDone (client s) \<and>
    seqNo (client s) = 3 \<and> seqEnd (client s) = 3 \<and> \<not> Running (client s)"
proof -
  have "map_option (\<lambda>s. (handedOut s, received s, flying s, taken s, pending (client s), bDone (client s),
      seqNo (client s), seqEnd (client s), Running (client s))) (demo_run demo_good) =
    Some ([demo_src 1, demo_src 2], {1, 2}, None, None, [], True, 3, 3, False)"
    by code_simp
  then show ?thesis by auto
qed

subsection \<open>Delivery\<close>

text \<open>
  C1. Delivery in order, without gaps and exactly once. In every state the client can reach
  on a network that carries datagrams of one stream, in any order, repeated, overlapping or
  lost, and under every interleaving of the receiving goroutine, the worker and the reader:
  what \<open>Read\<close> has returned, is about to return, has ready and what the worker is about to hand
  over are together the stream from the first sequence number up to \<open>seqNo\<close>, each message once.
\<close>

theorem delivery_in_order:
  assumes "reachable (client_start s0 L) (sys_step (genuine_dgram src L)) s"
  shows "out_of s @ pending (client s) @ opt_list (flying s) = map src [unat s0..<unat (seqNo (client s))] \<and>
    handedOut s = map src [unat s0..<unat s0 + length (handedOut s)]"
proof -
  let ?n = "unat (seqNo (client s))"
  have le: "unat s0 \<le> ?n" and eq: "out_of s @ pending (client s) @ opt_list (flying s) = map src [unat s0..<?n]"
    using sys_invD(4) [OF honest_inv [OF assms]] by (simp_all add: reasm_inv_def)
  obtain rest where rest: "handedOut s @ rest = map src [unat s0..<?n]"
    using eq by (auto simp: out_of_def)
  then have "length (handedOut s) \<le> ?n - unat s0"
    by (metis le_add1 length_append length_map length_upt)
  moreover have "handedOut s = take (length (handedOut s)) (map src [unat s0..<?n])"
    unfolding rest [symmetric] by simp
  ultimately have "handedOut s = map src [unat s0..<unat s0 + length (handedOut s)]"
    using le by (simp add: take_map)
  with eq show ?thesis by simp
qed

theorem delivery_in_order_witness:
  "\<exists>s. reachable (client_start 1 3) (sys_step (genuine_dgram demo_src 3)) s \<and>
    handedOut s = [demo_src 1, demo_src 2] \<and> handedOut s = map demo_src [1..<1 + length (handedOut s)]"
proof -
  obtain s where s: "demo_run demo_good = Some s" "handedOut s = [demo_src 1, demo_src 2]"
    using demo_good_run by blast
  with delivery_in_order [OF demo_reachable [OF s(1)]] demo_reachable [OF s(1)] show ?thesis by auto
qed

text \<open>
  C2. The sequence number the client expects is exactly the first one of the stream it has
  not processed: no reordering, repetition or overlap of packets makes it skip a message or
  wait for one it already has.
\<close>

theorem seqNo_is_first_missing:
  assumes "reachable (client_start s0 L) (sys_step (genuine_dgram src L)) s"
  shows "first_missing (unat s0) (received s) (unat (seqNo (client s)))"
  using sys_invD(4) [OF honest_inv [OF assms]] by (rule reasm_inv_first_missing)

theorem seqNo_is_first_missing_witness:
  "\<exists>s. reachable (client_start 1 3) (sys_step (genuine_dgram demo_src 3)) s \<and>
    received s = {1, 2} \<and> seqNo (client s) = 3 \<and> first_missing 1 (received s) 3"
proof -
  obtain s where s: "demo_run demo_good = Some s" "received s = {1, 2}" "seqNo (client s) = 3"
    using demo_good_run by blast
  with seqNo_is_first_missing [OF demo_reachable [OF s(1)]] demo_reachable [OF s(1)] show ?thesis by auto
qed

text \<open>
  C3. Completeness: once every message up to \<open>e\<close> was processed and the reader has taken what
  was ready, the messages up to \<open>e\<close> have all been returned by \<open>Read\<close>.
\<close>

theorem delivery_complete:
  assumes "reachable (client_start s0 L) (sys_step (genuine_dgram src L)) s"
    and "{unat s0..<e} \<subseteq> received s" "flying s = None" "taken s = None" "pending (client s) = []"
  shows "take (e - unat s0) (handedOut s) = map src [unat s0..<e]"
proof -
  let ?n = "unat (seqNo (client s))"
  note inv = sys_invD(4) [OF honest_inv [OF assms(1)]]
  have out: "handedOut s = map src [unat s0..<?n]"
    using inv assms(3-5) by (simp add: reasm_inv_def out_of_def)
  have "e \<le> ?n" if "unat s0 < e"
    using reasm_inv_first_missing [OF inv] assms(2) that
    by (metis atLeastLessThan_iff first_missing_def not_le_imp_less subsetD)
  then show ?thesis by (cases "unat s0 < e") (auto simp: out take_map)
qed

theorem delivery_complete_witness:
  "\<exists>s. reachable (client_start 1 3) (sys_step (genuine_dgram demo_src 3)) s \<and>
    {1..<3} \<subseteq> received s \<and> take 2 (handedOut s) = map demo_src [1..<3]"
proof -
  obtain s where s: "demo_run demo_good = Some s" "received s = {1, 2}" "flying s = None"
      "taken s = None" "pending (client s) = []"
    using demo_good_run by blast
  have "{1..<3} = {1, 2 :: nat}" by code_simp
  then have r: "{1..<3} \<subseteq> received s" unfolding s(2) by simp
  then have "{unat (1 :: u64)..<3} \<subseteq> received s" by simp
  from delivery_complete [OF demo_reachable [OF s(1)] this s(3-5)] r demo_reachable [OF s(1)]
  show ?thesis by (intro exI [of _ s]) simp
qed

text \<open>
  C6. The end of the session: \<open>bDone\<close>, the flag on which \<open>Read\<close> stops, is set only after an
  end of session packet and only when everything before its sequence number has been
  received, so that all of it is handed out, ready, or about to be.
\<close>

theorem done_means_complete:
  assumes "reachable (client_start s0 L) (sys_step (genuine_dgram src L)) s" "bDone (client s)"
  shows "endSession (client s) \<and> {unat s0..<unat (seqEnd (client s))} \<subseteq> received s \<and>
    (\<exists>rest. out_of s @ pending (client s) @ opt_list (flying s) =
       map src [unat s0..<unat (seqEnd (client s))] @ rest)"
proof -
  let ?n = "unat (seqNo (client s))" and ?e = "unat (seqEnd (client s))"
  note inv = sys_invD [OF honest_inv [OF assms(1)]]
  have "endSession (client s)" and e: "?e \<le> ?n"
    using inv(2) assms(2) by (auto simp: eos_ok_def word_le_nat_alt)
  moreover have "{unat s0..<?e} \<subseteq> received s" using inv(4) e by (auto simp: reasm_inv_def)
  moreover have "\<exists>rest. map src [unat s0..<?n] = map src [unat s0..<?e] @ rest"
    using e by (metis append_Nil le_cases map_upt_append map_is_Nil_conv upt_conv_Nil)
  ultimately show ?thesis using inv(4) by (simp add: reasm_inv_def)
qed

theorem done_means_complete_witness:
  "\<exists>s :: sys. bDone (client s) \<and> seqEnd (client s) = 3 \<and> endSession (client s) \<and> {1..<3} \<subseteq> received s"
proof -
  obtain s where s: "demo_run demo_good = Some s" "bDone (client s)" "seqEnd (client s) = 3"
    using demo_good_run by blast
  with done_means_complete [OF demo_reachable [OF s(1)] s(2)] show ?thesis
    by (intro exI [of _ s]) simp
qed

text \<open>
  C8. A message can be lost at the end of the session: \<open>doMsgBuf\<close> advances \<open>seqNo\<close> and sets
  \<open>bDone\<close> before it takes the lock to hand over the last messages; a reader that takes the
  lock in between sees the end, stops the client, and the last message stays in \<open>ready\<close>, where
  no later call of \<open>Read\<close> returns it.
\<close>

theorem end_of_session_race:
  "\<exists>s. reachable (client_start 1 3) (sys_step (genuine_dgram demo_src 3)) s \<and>
    received s = {1, 2} \<and> seqNo (client s) = 3 \<and> handedOut s = [demo_src 1] \<and>
    pending (client s) = [demo_src 2] \<and> read_round (client s) = (ReadEnd, client s)"
proof -
  have "map_option (\<lambda>s. (received s, seqNo (client s), handedOut s, pending (client s), Running (client s)))
      (demo_run demo_race) = Some ({1, 2}, 3, [demo_src 1], [demo_src 2], False)"
    by code_simp
  then obtain s where "demo_run demo_race = Some s" "received s = {1, 2}" "seqNo (client s) = 3"
      "handedOut s = [demo_src 1]" "pending (client s) = [demo_src 2]" "\<not> Running (client s)"
    by auto
  with demo_reachable show ?thesis by (auto simp: read_round_def)
qed

subsection \<open>Publishers and readers\<close>

text \<open>
  C9. What a publisher built with this package sends is a datagram of its stream: a header for
  sequence number \<open>s\<close> and the count \<open>Marshal\<close> returned, followed by the bytes it wrote, is
  read by the client as exactly the packed messages. So the network of the delivery theorems
  is the one on which such publishers (and retransmission servers) send.
\<close>

theorem published_packets_genuine:
  assumes "good_session sess" "20 \<le> length hb" "short_msgs (map src [unat s..<unat s + k])"
    and "Marshal mb (map src [unat s..<unat s + k]) = (cnt, l, b)" "cnt < 65535" "unat s + cnt \<le> L"
    and "EncodeHead hb \<lparr>Session = sess, SeqNo = s, MessageCnt = of_nat cnt\<rparr> = Ok p"
  shows "genuine_dgram src L (take 20 p @ take l b)"
proof -
  let ?h = "\<lparr>Session = sess, SeqNo = s, MessageCnt = of_nat cnt\<rparr> :: Header"
  let ?ms = "map src [unat s..<unat s + k]" and ?pkt = "take 20 p @ take l b"
  have cnt: "unat (of_nat cnt :: u16) = cnt" using assms(5) by (intro unat_of_nat_u16) simp
  have dec: "DecodeHead ?pkt = Ok ?h" "Unmarshal (drop 20 ?pkt) (int cnt) = Ok (take cnt ?ms)"
    using mold.packet_roundtrip [of hb ?h ?ms mb cnt l b] assms cnt by auto
  have "cnt \<le> k"
    using assms(4) fitting_prefix [of "length mb" ?ms]
    by (auto simp: Marshal_eq Let_def)
  then have take: "take cnt ?ms = map src [unat s..<unat s + cnt]" by (simp add: take_map)
  have "cnt = 0" if "drop 20 ?pkt = []"
  proof -
    have "20 \<le> length p" using assms(2,7) by (auto simp: EncodeHead_Ok)
    moreover have "take l b = blocks (fitting (length mb) ?ms)" "cnt = length (fitting (length mb) ?ms)"
      using assms(4) by (auto simp: Marshal_eq Let_def)
    ultimately show ?thesis using that by (cases "fitting (length mb) ?ms") (auto simp: block_def)
  qed
  with dec take cnt assms(6) show ?thesis
    by (auto simp: genuine_dgram_def genuine_def unpack_def is_data_def)
qed

theorem published_packets_genuine_witness:
  "genuine_dgram demo_src 3
    ([65, 66, 32, 32, 32, 32, 32, 32, 32, 32, 0, 0, 0, 0, 0, 0, 0, 1, 0, 2] @ [0, 1, 1, 0, 1, 2])"
proof -
  have m: "Marshal (replicate 6 0) (map demo_src [unat (1 :: u64)..<unat (1 :: u64) + 2]) =
      (2, 6, [0, 1, 1, 0, 1, 2])" by code_simp
  have e: "EncodeHead (replicate 20 0) \<lparr>Session = [65, 66], SeqNo = 1, MessageCnt = of_nat 2\<rparr> =
      Ok [65, 66, 32, 32, 32, 32, 32, 32, 32, 32, 0, 0, 0, 0, 0, 0, 0, 1, 0, 2]" by code_simp
  have "short_msgs (map demo_src [unat (1 :: u64)..<unat (1 :: u64) + 2])"
    by (simp add: short_msgs_def demo_src_def)
  from published_packets_genuine [OF _ _ this m _ _ e, of 3] show ?thesis
    by (simp add: good_session_def blank_def)
qed

end
