(* ===== verification/Client_Live.thy ===== *)
theory Client_Live
  imports Client_Props
begin

section \<open>The end of the session is reached\<close>

text \<open>
  A second invariant of the client system, about \<open>lastSeq\<close>, what is ready and what the reader
  holds: once \<open>bDone\<close> is set and the worker is not between its two critical sections, the last
  messages are ready or already with a reader that is going to stop. From it follows that a
  reader that comes in time stops after one more round, with the whole stream handed out.
\<close>

definition live_inv :: "sys \<Rightarrow> bool" where
  "live_inv s \<longleftrightarrow>
     unat (lastSeq (client s)) \<le> unat (seqNo (client s)) \<and>
     (\<forall>ro t. taken s = Some (ro, t) \<longrightarrow> unat t \<le> unat (seqNo (client s))) \<and>
     (\<forall>res. flying s = Some res \<longrightarrow>
        unat (seqNo (client s)) = unat (lastSeq (client s)) + length res) \<and>
     (\<forall>r. flying s = None \<longrightarrow> ready (client s) = Some r \<longrightarrow>
        unat (seqNo (client s)) \<le> unat (lastSeq (client s)) + length r) \<and>
     (bDone (client s) \<longrightarrow> Running (client s) \<longrightarrow> flying s = None \<longrightarrow> ready (client s) = None \<longrightarrow>
        (\<exists>r t. taken s = Some (Some r, t) \<and> unat (seqNo (client s)) \<le> unat t + length r))"

lemma live_core:
  assumes "live_inv s" "same_core (client s) c'"
  shows "live_inv (s\<lparr>client := c'\<rparr>)"
  using assms by (simp add: live_inv_def same_core_def)

lemma live_received: "live_inv (s\<lparr>received := R\<rparr>) = live_inv s"
  by (simp add: live_inv_def)

subsection \<open>The two halves of \<open>doMsgBuf\<close>\<close>

lemma deliver_publish:
  assumes "deliver s res c = (f, c')"
  shows "(\<forall>r. f \<noteq> FReturn r) \<and>
    (\<forall>out. f = FPublish out \<longrightarrow> lastSeq c' = seqNo c \<and> ready c' = ready c \<and> Running c' = Running c) \<and>
    ((\<forall>out. f \<noteq> FPublish out) \<longrightarrow> c' = c)"
  using assms
  by (auto simp: deliver_def Let_def split: if_splits outcome.splits option.splits)

lemma eos_update_live:
  "bDone (eos_update mb c) \<and> Running (eos_update mb c) \<Longrightarrow> bDone c \<and> Running c \<or> ready c \<noteq> None"
  by (auto simp: eos_update_def Let_def split: if_splits)

lemma storeCache_live:
  "storeCache buf s c = Ok (s', c') \<Longrightarrow>
    bDone c' = bDone c \<and> Running c' = Running c \<and> ready c' = ready c \<and> lastSeq c' = lastSeq c \<and> seqNo c' = seqNo c"
  by (auto simp: storeCache_def Let_def outcome_simps split: if_splits)

definition kept :: "Client \<Rightarrow> Client \<Rightarrow> bool" where
  "kept c c' \<longleftrightarrow> seqNo c' = seqNo c \<and> ready c' = ready c \<and> lastSeq c' = lastSeq c \<and>
     (bDone c' \<and> Running c' \<longrightarrow> bDone c \<and> Running c \<or> ready c \<noteq> None)"

lemma kept_ch: "kept (c\<lparr>ch := rest\<rparr>) c' \<Longrightarrow> kept c c'"
  by (simp add: kept_def)

lemma kept_eos: "kept c (eos_update mb c)"
  using eos_update_live [of mb c] by (simp add: kept_def)

lemma kept_same:
  assumes "kept c c1" "seqNo c' = seqNo c1" "ready c' = ready c1" "lastSeq c' = lastSeq c1"
    "bDone c' = bDone c1" "Running c' = Running c1"
  shows "kept c c'"
  using assms by (simp add: kept_def)

lemma front_live:
  assumes "doMsgBuf_front now mb c = (f, c')"
  shows "(\<exists>res. f = FPublish res \<and> lastSeq c' = seqNo c \<and> ready c' = ready c) \<or>
    (\<forall>res. f \<noteq> FPublish res) \<and> kept c c'"
proof (cases "unpack mb")
  case (Ok res)
  let ?c = "eos_update mb c" and ?s = "bufSeqNo mb"
  note K = kept_eos [of c mb] kept_same [OF kept_eos [of c mb]]
  have del: ?thesis if "deliver ?s res ?c = (f, c')"
    using deliver_publish [OF that] K(1) by (cases f) auto
  show ?thesis
  proof (cases "storeCache res ?s ?c")
    case (Ok y)
    obtain s' c2 where y: "y = (s', c2)" by fastforce
    have "kept c c2" using storeCache_live [of res ?s ?c s' c2] Ok y K(2) [of c2] by simp
    note K2 = kept_same [OF this]
    from Ok y \<open>unpack mb = Ok res\<close> assms del \<open>kept c c2\<close> K K2 show ?thesis
      by (auto simp: doMsgBuf_front_def Let_def split_beta split: if_splits)
  qed (use \<open>unpack mb = Ok res\<close> assms del K in
      \<open>auto simp: doMsgBuf_front_def Let_def split_beta split: if_splits\<close>)
qed (use assms in \<open>auto simp: doMsgBuf_front_def kept_def\<close>)

subsection \<open>Every step keeps the invariant\<close>

lemma live_kept:
  assumes "live_inv s" "flying s = None" "kept (client s) c'"
  shows "live_inv (s\<lparr>client := c', received := R\<rparr>)"
  using assms by (auto simp: live_inv_def kept_def)

lemma reasm_publish_length:
  assumes "reasm_inv src s0 L R out [] c" "reasm_inv src s0 L R' out res c'" "ready c' = ready c"
  shows "unat (seqNo c') = unat (seqNo c) + length res"
proof -
  have p: "pending c' = pending c" using assms(3) by (simp add: pending_def)
  have le: "s0 \<le> unat (seqNo c)" "s0 \<le> unat (seqNo c')" using assms(1,2) by (auto simp: reasm_inv_def)
  have "out @ pending c = map src [s0..<unat (seqNo c)]" using assms(1) by (simp add: reasm_inv_def)
  then have "length out + length (pending c) = unat (seqNo c) - s0"
    by (metis length_append length_map length_upt)
  moreover have "out @ pending c @ res = map src [s0..<unat (seqNo c')]"
    using assms(2) p by (simp add: reasm_inv_def)
  then have "length out + (length (pending c) + length res) = unat (seqNo c') - s0"
    by (metis length_append length_map length_upt)
  ultimately show ?thesis using le by linarith
qed

lemma live_work_front:
  assumes inv: "sys_inv src s0 L s" and L: "L < 18446744073709551616" and live: "live_inv s"
    and fl: "flying s = None" and ch: "ch (client s) = mb # rest"
    and front: "doMsgBuf_front now mb ((client s)\<lparr>ch := rest\<rparr>) = (FPublish res, c')"
  shows "live_inv (s\<lparr>client := c', flying := Some res, received := R\<rparr>)"
proof -
  let ?c = "(client s)\<lparr>ch := rest\<rparr>"
  note I = sys_invD [OF inv]
  have gen: "genuine src L mb" using I(3) ch by simp
  have re: "reasm_inv src s0 L (received s) (out_of s) [] ?c"
    using I(4) fl reasm_inv_cong [of ?c "client s"] by simp
  have c': "lastSeq c' = seqNo (client s)" "ready c' = ready ?c" using front_live [OF front] by auto
  have "unat (seqNo c') = unat (seqNo (client s)) + length res"
    using reasm_publish_length [OF re front_reasm [OF re L gen front, unfolded in_flight_def, simplified] c'(2)]
    by simp
  with c' live show ?thesis by (auto simp: live_inv_def)
qed

lemma taken_bound:
  assumes inv: "sys_inv src s0 L s" and L: "L < 9223372036854775808" and live: "live_inv s"
    and taken: "taken s = Some (ro, t)" and n: "n = length (opt_list ro)"
  shows "unat (t + of_nat n) = unat t + n"
proof -
  let ?N = "unat (seqNo (client s))"
  have eq: "out_of s @ pending (client s) @ opt_list (flying s) = map src [s0..<?N]" and le: "?N \<le> L"
    using sys_invD(4) [OF inv] by (auto simp: reasm_inv_def)
  have "n \<le> length (map src [s0..<?N])" unfolding eq [symmetric] using taken n by (simp add: out_of_def)
  then have "n \<le> ?N" by simp
  moreover have "unat t \<le> ?N" using live taken by (auto simp: live_inv_def)
  ultimately show ?thesis using le L by (intro unat_add_of_nat) simp
qed

lemma live_check:
  assumes inv: "sys_inv src s0 L s" and L: "L < 9223372036854775808" and live: "live_inv s"
    and taken: "taken s = Some u"
  shows "live_inv (s\<lparr>client := read_check u (client s), taken := None, handedOut := h\<rparr>)"
proof -
  obtain ro t where u: "u = (ro, t)" by fastforce
  let ?c = "read_check u (client s)"
  have eq: "seqNo ?c = seqNo (client s)" "lastSeq ?c = lastSeq (client s)" "ready ?c = ready (client s)"
      "bDone ?c = bDone (client s)"
    by (simp_all add: read_check_def Let_def u)
  have "\<not> Running ?c" if d: "bDone (client s)" and fl: "flying s = None" and rd: "ready (client s) = None"
  proof (cases "Running (client s)")
    case True
    then obtain r where r: "ro = Some r" "unat (seqNo (client s)) \<le> unat t + length r"
      using live d fl rd taken u by (auto simp: live_inv_def)
    have "unat (t + of_nat (length r)) = unat t + length r"
      using taken_bound [OF inv L live, of ro t] taken u r(1) by simp
    with r d show ?thesis by (simp add: read_check_def u word_le_nat_alt)
  qed (simp add: read_check_def u Let_def)
  with live eq show ?thesis by (auto simp: live_inv_def)
qed

lemma live_step:
  assumes step: "sys_step wire s t" and inv: "sys_inv src s0 L s" and live: "live_inv s"
    and wire: "\<forall>p. wire p \<longrightarrow> genuine_dgram src L p" and L: "L < 9223372036854775808"
  shows "live_inv t"
  using step
proof cases
  case (receive ev now r c')
  have "same_core (client s) c'"
    using doMsgLoop_round_effect [OF receive(4) _ sys_invD(3) [OF inv]] receive(3) wire by blast
  with live_core [OF live] receive(1) show ?thesis by simp
next
  case (tick dial now out c')
  with live_core [OF live] on_tick_effect [OF tick(4)] show ?thesis by simp
next
  case (work_return mb rest now req c1 dial out c')
  have k: "kept (client s) c1" using front_live [OF work_return(5)] kept_ch by blast
  have "kept (client s) c'"
    using maybe_request_effect [OF work_return(6)] kept_same [OF k] by (simp add: same_core_def)
  with live_kept [OF live work_return(2)] work_return(1) show ?thesis by simp
next
  case (work_error mb rest now e c1 c')
  have k: "kept (client s) c1" using front_live [OF work_error(5)] kept_ch by blast
  have "kept (client s) c'" using work_error(6) kept_same [OF k] by simp
  with live_kept [OF live work_error(2)] work_error(1) show ?thesis by simp
next
  case (work_front mb rest now res c')
  have "L < 18446744073709551616" using L by simp
  from live_work_front [OF inv this live work_front(2,4,5)] work_front(1) show ?thesis by simp
next
  case (work_publish res)
  with live show ?thesis by (auto simp: live_inv_def publish_def split: option.splits)
next
  case (reader_take u c')
  with live show ?thesis by (auto simp: live_inv_def read_take_def)
next
  case (reader_check u)
  with live_check [OF inv L live reader_check(2)] show ?thesis by simp
qed

definition client_start_live :: "u64 \<Rightarrow> nat \<Rightarrow> sys \<Rightarrow> bool" where
  "client_start_live s0 L s \<longleftrightarrow> started s0 s \<and> unat s0 \<le> L \<and> L < 9223372036854775808"

lemma started_live: "started s0 s \<Longrightarrow> live_inv s"
  unfolding started_def live_inv_def using NewClient_cases by fastforce

interpretation honest_live:
  step_system "client_start_live s0 L" "sys_step (genuine_dgram src L)"
    "\<lambda>s. L < 9223372036854775808 \<and> sys_inv src (unat s0) L s \<and> live_inv s"
  for s0 L src
  by unfold_locales
    (auto simp: client_start_live_def intro: started_inv started_live sys_step_inv live_step)

subsection \<open>Property\<close>

text \<open>
  C4. The end of the session is reached: in every reachable state in which the worker has found
  the session complete and has handed over its last messages, and no reader is in the middle of
  a round, one more round of \<open>Read\<close> stops the client, and everything from the first sequence
  number on has then been returned.
\<close>

theorem read_stops_at_end:
  assumes "reachable (client_start_live s0 L) (sys_step (genuine_dgram src L)) s"
    and "bDone (client s)" "Running (client s)" "flying s = None" "taken s = None"
  shows "\<exists>t u. sys_step (genuine_dgram src L) s t \<and> sys_step (genuine_dgram src L) t u \<and>
    \<not> Running (client u) \<and> handedOut u = map src [unat s0..<unat (seqNo (client s))] \<and>
    {unat s0..<unat (seqEnd (client s))} \<subseteq> received u"
proof -
  let ?wire = "genuine_dgram src L" and ?c = "client s"
  have L: "L < 9223372036854775808" and inv: "sys_inv src (unat s0) L s" and live: "live_inv s"
    using honest_live.reachable_inv [OF assms(1)] by auto
  obtain r where r: "ready ?c = Some r" "unat (seqNo ?c) \<le> unat (lastSeq ?c) + length r"
    using live assms(2-5) by (fastforce simp: live_inv_def)
  define t where "t = s\<lparr>client := ?c\<lparr>ready := None\<rparr>, taken := Some (Some r, lastSeq ?c)\<rparr>"
  define u where "u = t\<lparr>client := read_check (Some r, lastSeq ?c) (client t), taken := None,
    handedOut := handedOut t @ opt_list (fst (Some r, lastSeq ?c))\<rparr>"
  have st: "sys_step ?wire s t"
    unfolding t_def using assms(3,5) r(1) by (intro sys_step.reader_take) (simp_all add: read_take_def)
  have tu: "sys_step ?wire t u" unfolding u_def by (rule sys_step.reader_check) (simp add: t_def)
  have L': "L < 18446744073709551616" using L by simp
  have invt: "sys_inv src (unat s0) L t" "live_inv t"
    using sys_step_inv [OF st inv _ L'] live_step [OF st inv live _ L] by auto
  have "taken t = Some (Some r, lastSeq ?c)" by (simp add: t_def)
  from taken_bound [OF invt(1) L invt(2) this refl]
  have "unat (lastSeq ?c + of_nat (length r)) = unat (lastSeq ?c) + length r" by simp
  then have "\<not> Running (client u)"
    using r(2) assms(2) by (simp add: u_def t_def read_check_def word_le_nat_alt)
  moreover have "handedOut u = map src [unat s0..<unat (seqNo ?c)]"
    using sys_invD(4) [OF inv] assms(4,5) r(1) by (simp add: u_def t_def reasm_inv_def out_of_def pending_def)
  moreover have "{unat s0..<unat (seqEnd ?c)} \<subseteq> received u"
  proof -
    have "unat (seqEnd ?c) \<le> unat (seqNo ?c)"
      using sys_invD(2) [OF inv] assms(2) by (simp add: eos_ok_def word_le_nat_alt)
    then show ?thesis using sys_invD(4) [OF inv] by (auto simp: u_def t_def reasm_inv_def)
  qed
  ultimately show ?thesis using st tu by blast
qed

text \<open>The same session as before, stopped before the reader comes.\<close>

definition demo_unread :: "act list" where
  "demo_unread = [AReceive 0 (MRecvOk demo_packets demo_addr), AWork 0, APublish, AWork 0, AWork 0, APublish]"

lemma demo_unread_run:
  "\<exists>s. demo_run demo_unread = Some s \<and> bDone (client s) \<and> Running (client s) \<and> flying s = None \<and>
    taken s = None \<and> seqNo (client s) = 3 \<and> handedOut s = [] \<and> lastSeq (client s) = 2 \<and>
    ready (client s) = Some [demo_src 1, demo_src 2]"
proof -
  have "map_option (\<lambda>s. (bDone (client s), Running (client s), flying s, taken s, seqNo (client s), handedOut s,
      lastSeq (client s), ready (client s))) (demo_run demo_unread) =
    Some (True, True, None, None, 3, [], 2, Some [demo_src 1, demo_src 2])"
    by code_simp
  then show ?thesis by auto
qed

theorem read_stops_at_end_witness:
  "\<exists>u :: sys. \<not> Running (client u) \<and> handedOut u = [demo_src 1, demo_src 2]"
proof -
  obtain s where s: "demo_run demo_unread = Some s" "bDone (client s)" "Running (client s)"
      "flying s = None" "taken s = None" "seqNo (client s) = 3"
    using demo_unread_run by blast
  have "client_start_live 1 3 demo_start"
    using demo_started by (simp add: client_start_def client_start_live_def)
  then have "reachable (client_start_live 1 3) (sys_step (genuine_dgram demo_src 3)) s"
    using s(1) reach_init run_reachable unfolding demo_run_def by metis
  from read_stops_at_end [OF this s(2-5)] s(6) have
    "\<exists>u :: sys. \<not> Running (client u) \<and> handedOut u = map demo_src [1..<3]" by auto
  moreover have "map demo_src [1..<3] = [demo_src 1, demo_src 2]" by code_simp
  ultimately show ?thesis by metis
qed

end
