(* ===== verification/Handlers.thy ===== *)
theory Handlers
  imports Delivery
begin

section \<open>The handlers of the client, branch by branch\<close>

text \<open>
  Functional behaviour of single handlers for arbitrary clients, without reference to a stream:
  which datagrams \<open>gotBuff\<close> accepts, what \<open>doMsgBuf\<close> hands over when a packet is in turn,
  what a packet that repeats the last one does, and what a publisher has to send.
\<close>

subsection \<open>Delivering in turn\<close>

lemma deliver_run:
  assumes ck: "cache_ok (cache c)"
    and s: "unat s \<le> unat (seqNo c)" "unat (seqNo c) \<le> unat s + length res"
    and le: "unat s + length res < 18446744073709551616"
  shows "\<exists>ms c'. deliver s res c = (FPublish (drop (unat (seqNo c) - unat s) res @ ms), c') \<and>
    is_run (cache_at (cache c)) (unat s + length res) ms \<and>
    seqNo c' = s + of_nat (length res) + of_nat (length ms) \<and>
    lastSeq c' = seqNo c \<and> ready c' = ready c \<and> cache c' = cache c \<and> nRepeats c' = nRepeats c"
proof -
  let ?f = "unat (seqNo c)"
  define res1 where "res1 = (if s < seqNo c then drop (unat (seqNo c - s)) res else res)"
  define s1 where "s1 = seqNo c + of_nat (length res1)"
  have off: "unat (seqNo c - s) = ?f - unat s"
    using s(1) by (simp add: unat_sub word_le_nat_alt)
  have res1: "res1 = drop (?f - unat s) res"
    using s off by (auto simp: res1_def word_less_nat_alt)
  then have "unat s1 = unat s + length res"
    using unat_add_of_nat [of "seqNo c" "length res1"] s le by (simp add: s1_def)
  then have s1: "unat s1 = unat s + length res" "s1 = s + of_nat (length res)"
    using unat_add_of_nat [of s "length res"] le by (auto simp: word_unat_eq_iff)
  obtain bb ms where bb: "popCache s1 c = Ok bb" "is_run (cache_at (cache c)) (unat s1) ms"
      "ms = (case bb of None \<Rightarrow> [] | Some x \<Rightarrow> x)"
    using pages.merge_law [OF ck, of s1] by (auto simp: popCache_def split: if_splits)
  have notrange: "\<not> (s < seqNo c \<and> length res < unat (seqNo c - s))"
    using s off by auto
  have "\<exists>c'. deliver s res c = (FPublish (res1 @ ms), c') \<and> seqNo c' = s1 + of_nat (length ms) \<and>
    lastSeq c' = seqNo c \<and> ready c' = ready c \<and> cache c' = cache c \<and> nRepeats c' = nRepeats c"
    using bb notrange
    by (cases bb) (auto simp: deliver_def Let_def res1_def [symmetric] s1_def [symmetric])
  with bb(2) s1 show ?thesis unfolding res1 by auto
qed

lemma doMsgBuf_deliver:
  assumes "client_ok c" "is_data mb" "unpack mb = Ok res" "length res = unat (msgCnt mb)"
    and s: "unat (bufSeqNo mb) \<le> unat (seqNo c)" "unat (seqNo c) \<le> unat (bufSeqNo mb) + length res"
    and le: "unat (bufSeqNo mb) + length res < 18446744073709551616"
  shows "\<exists>ms c'. doMsgBuf now mb c = (Ok None, c') \<and>
    is_run (cache_at (cache c)) (unat (bufSeqNo mb) + length res) ms \<and>
    ready c' = Some (pending c @ drop (unat (seqNo c) - unat (bufSeqNo mb)) res @ ms) \<and>
    seqNo c' = bufSeqNo mb + of_nat (length res) + of_nat (length ms) \<and>
    lastSeq c' = seqNo c \<and> cache c' = cache c \<and> nRepeats c' = nRepeats c"
proof -
  let ?s = "bufSeqNo mb"
  have "unat (?s + ucast (msgCnt mb)) = unat ?s + length res"
    using le assms(4) by (simp add: unat_word_ariths)
  then have "\<not> ?s + ucast (msgCnt mb) < seqNo c" "\<not> seqNo c < ?s"
    using s by (simp_all add: word_less_nat_alt)
  then have "doMsgBuf_front now mb c = deliver ?s res c"
    using front_data [OF assms(2-4), of now c] by (simp add: Let_def)
  moreover have "cache_ok (cache c)" using assms(1) by (simp add: client_ok_def)
  from deliver_run [OF this s le] obtain ms c' where
    "deliver ?s res c = (FPublish (drop (unat (seqNo c) - unat ?s) res @ ms), c')"
    "is_run (cache_at (cache c)) (unat ?s + length res) ms"
    "seqNo c' = ?s + of_nat (length res) + of_nat (length ms)"
    "lastSeq c' = seqNo c" "ready c' = ready c" "cache c' = cache c" "nRepeats c' = nRepeats c"
    by blast
  ultimately show ?thesis
    by (auto simp: doMsgBuf_def publish_def pending_def split: option.split)
qed

subsection \<open>Admitting datagrams\<close>

definition admissible :: "Header \<Rightarrow> nat \<Rightarrow> Client \<Rightarrow> bool" where
  "admissible h n c \<longleftrightarrow>
     (MessageCnt h < 1024 \<or> MessageCnt h = 0xffff) \<and> (session c = [] \<or> session c = Session h) \<and>
     (MessageCnt h = 0 \<or> MessageCnt h = 0xffff \<or> 20 < n)"

lemma check_head_iff:
  assumes "20 \<le> n"
  shows "(\<exists>c'. check_head now h n c = (Ok (), c')) \<longleftrightarrow> admissible h n c"
  using assms
  by (auto simp: check_head_def admissible_def Let_def headSize_def maxMessages_def not_le)

lemma DecodeHead_length: "DecodeHead b = Ok h \<Longrightarrow> 20 \<le> length b"
  by (simp add: DecodeHead_def headSize_def Let_def split: if_splits)

lemma check_head_session:
  assumes "check_head now h n c = (Ok (), c')"
  shows "session c' = (if session c = [] then Session h else session c)"
  using assms by (auto simp: check_head_def Let_def split: if_splits)

subsection \<open>Properties\<close>

text \<open>
  C10. Delivery of a packet in turn, for every well-formed client: when the packet starts at or
  before the expected sequence number and ends at or after it, \<open>doMsgBuf\<close> appends to what is
  ready exactly the messages that are new, followed by the longest run of cached messages after
  them, advances \<open>seqNo\<close> over all of them, and asks for nothing.
\<close>

theorem doMsgBuf_in_turn:
  assumes "client_ok c" "is_data mb" "unpack mb = Ok res" "length res = unat (msgCnt mb)"
    "unat (bufSeqNo mb) \<le> unat (seqNo c)" "unat (seqNo c) \<le> unat (bufSeqNo mb) + length res"
    "unat (bufSeqNo mb) + length res < 18446744073709551616"
  shows "\<exists>ms c'. doMsgBuf now mb c = (Ok None, c') \<and>
    is_run (cache_at (cache c)) (unat (bufSeqNo mb) + length res) ms \<and>
    ready c' = Some (pending c @ drop (unat (seqNo c) - unat (bufSeqNo mb)) res @ ms) \<and>
    seqNo c' = bufSeqNo mb + of_nat (length res) + of_nat (length ms)"
  using doMsgBuf_deliver [OF assms] by blast

definition turn_client :: Client where
  "turn_client = zero_client\<lparr>cache := Init zero_cache, seqNo := 2, Running := True\<rparr>"

definition turn_packet :: msgBuf where
  "turn_packet = \<lparr>bufSeqNo = 1, msgCnt = 2, dataBuf = [0, 1, 7, 0, 1, 8]\<rparr>"

lemma turn_facts:
  "client_ok turn_client" "is_data turn_packet"
  "unpack turn_packet = Ok [\<lparr>Data = [7]\<rparr>, \<lparr>Data = [8]\<rparr>]"
  "cache_at (cache turn_client) n = None"
proof -
  show "client_ok turn_client" "cache_at (cache turn_client) n = None"
    using Init_zero_ok by (simp_all add: turn_client_def client_ok_def robin_ok_def)
  show "is_data turn_packet" by (simp add: turn_packet_def is_data_def)
  show "unpack turn_packet = Ok [\<lparr>Data = [7]\<rparr>, \<lparr>Data = [8]\<rparr>]" by code_simp
qed

theorem doMsgBuf_in_turn_witness:
  "\<exists>c'. doMsgBuf 0 turn_packet turn_client = (Ok None, c') \<and> ready c' = Some [\<lparr>Data = [8]\<rparr>] \<and> seqNo c' = 3"
proof -
  obtain ms c' where "doMsgBuf 0 turn_packet turn_client = (Ok None, c')"
    "is_run (cache_at (cache turn_client)) 3 ms"
    "ready c' = Some (pending turn_client @ [\<lparr>Data = [8]\<rparr>] @ ms)" "seqNo c' = 3 + of_nat (length ms)"
    using doMsgBuf_in_turn [OF turn_facts(1-3), of 0]
    by (auto simp: turn_packet_def turn_client_def numeral_3_eq_3)
  then show ?thesis using turn_facts(4) by (cases ms) (auto simp: turn_client_def pending_def)
qed

text \<open>
  A repetition of the packet the client has just processed is not recognised as one: the
  test \<open>seqNext < seqF\<close> fails when the packet ends exactly where the client stands, so it is not
  counted as a repeat, it overwrites \<open>lastSeq\<close>, and the next \<open>Read\<close> returns an empty batch.
\<close>

theorem repeated_last_packet:
  assumes "client_ok c" "is_data mb" "unpack mb = Ok res" "length res = unat (msgCnt mb)"
    "unat (seqNo c) = unat (bufSeqNo mb) + length res"
    "cache_at (cache c) (unat (seqNo c)) = None" "ready c = None"
  shows "\<exists>c'. doMsgBuf now mb c = (Ok None, c') \<and> seqNo c' = seqNo c \<and> nRepeats c' = nRepeats c \<and>
    lastSeq c' = seqNo c \<and> ready c' = Some []"
proof -
  have lt: "unat (bufSeqNo mb) + length res < 18446744073709551616"
    using unat_u64_less [of "seqNo c"] assms(5) by simp
  then have s: "bufSeqNo mb + of_nat (length res) = seqNo c"
    using unat_add_of_nat [of "bufSeqNo mb" "length res"] assms(5) by (simp add: word_unat_eq_iff)
  obtain ms c' where d: "doMsgBuf now mb c = (Ok None, c')" "is_run (cache_at (cache c)) (unat (seqNo c)) ms"
      "ready c' = Some (pending c @ drop (unat (seqNo c) - unat (bufSeqNo mb)) res @ ms)"
      "seqNo c' = bufSeqNo mb + of_nat (length res) + of_nat (length ms)"
      "lastSeq c' = seqNo c" "nRepeats c' = nRepeats c"
    using doMsgBuf_deliver [OF assms(1-4) _ _ lt, of now] assms(5) by auto
  from d(2) assms(6) have "ms = []" by (cases ms) auto
  with d s assms(5,7) show ?thesis by (simp add: pending_def)
qed

theorem repeated_last_packet_witness:
  "\<exists>c'. doMsgBuf 0 turn_packet (turn_client\<lparr>seqNo := 3\<rparr>) = (Ok None, c') \<and> ready c' = Some [] \<and>
    nRepeats c' = 0"
proof -
  have "client_ok (turn_client\<lparr>seqNo := 3\<rparr>)"
    using turn_facts(1) by (simp add: client_ok_def robin_ok_def)
  from repeated_last_packet [OF this turn_facts(2,3), of 0] turn_facts(4) show ?thesis
    by (auto simp: turn_packet_def turn_client_def zero_client_def)
qed

lemma gotBuff_iff:
  assumes "n \<le> length buff"
  shows "(\<exists>c'. gotBuff now buff n c = Some (Ok (), c')) \<longleftrightarrow>
    length (ch c) < chCap \<and> (\<exists>h. DecodeHead (take n buff) = Ok h \<and> admissible h n c)"
proof (cases "DecodeHead (take n buff)")
  case (Ok h)
  let ?c = "c\<lparr>nRecvs := nRecvs c + 1\<rparr>"
  have n: "20 \<le> n" using DecodeHead_length [OF Ok] assms by simp
  obtain r c1 where k: "check_head now h n ?c = (r, c1)" by fastforce
  have "r = Ok () \<longleftrightarrow> admissible h n c"
    using check_head_iff [OF n, of now h ?c] k by (auto simp: admissible_def)
  with Ok assms k check_head_frame [OF k] show ?thesis
    by (cases r) (auto simp: gotBuff_def Let_def send_ch_def)
qed (use assms in \<open>auto simp: gotBuff_def Let_def\<close>)

text \<open>
  What admitting a datagram does: the buffer queued last carries the sequence number and
  count of the header and the bytes after it (none for a heartbeat or an end of session), the
  first datagram fixes the session, and the reassembly state is untouched. A datagram that is
  not admitted leaves channel and reassembly state as they were.
\<close>

lemma gotBuff_effect_on_state:
  assumes "gotBuff now buff n c = Some (r, c')" "n \<le> length buff"
  shows "same_core c c' \<and> nRecvs c' = nRecvs c + 1 \<and>
    (case r of
       Ok u \<Rightarrow> \<exists>h. DecodeHead (take n buff) = Ok h \<and>
         session c' = (if session c = [] then Session h else session c) \<and>
         ch c' = ch c @ [\<lparr>bufSeqNo = SeqNo h, msgCnt = MessageCnt h,
           dataBuf = (if MessageCnt h = 0 \<or> MessageCnt h = 0xffff then [] else drop 20 (take n buff))\<rparr>]
     | _ \<Rightarrow> ch c' = ch c)"
proof (cases "DecodeHead (take n buff)")
  case (Ok h)
  let ?c = "c\<lparr>nRecvs := nRecvs c + 1\<rparr>"
  have sl: "go_slice buff headSize n = drop 20 (take n buff)"
    by (simp add: go_slice_def headSize_def drop_take)
  obtain r1 c1 where k: "check_head now h n ?c = (r1, c1)" by fastforce
  note fr = check_head_frame [OF k]
  have rc: "nRecvs c1 = nRecvs c + 1"
    using k by (auto simp: check_head_def Let_def split: if_splits)
  have core: "same_core c (c1\<lparr>ch := x\<rparr>)" for x using fr by (simp add: same_core_def)
  show ?thesis
  proof (cases "r1 = Ok ()")
    case True
    let ?mb = "\<lparr>bufSeqNo = SeqNo h, msgCnt = MessageCnt h,
      dataBuf = (if MessageCnt h = 0 \<or> MessageCnt h = 0xffff then [] else drop 20 (take n buff))\<rparr>"
    have "r = Ok ()" "c' = c1\<lparr>ch := ch c1 @ [?mb]\<rparr>"
      using assms Ok k True by (auto simp: gotBuff_def Let_def send_ch_def sl split: if_splits)
    with core rc fr(8) check_head_session [of now h n ?c c1] k True Ok show ?thesis by simp
  next
    case False
    then have "r = r1" "c' = c1" using assms Ok k fr(1) by (cases r1; auto simp: gotBuff_def Let_def)+
    with False fr rc show ?thesis by (cases r1) (simp_all add: same_core_def)
  qed
qed (use assms DecodeHead_no_panic [of "take n buff"] in
    \<open>auto simp: gotBuff_def Let_def same_core_def split: if_splits\<close>)

text \<open>
  C33. What happens to a datagram, case by case. \<open>gotBuff\<close> admits it if and only if it has a
  whole header, its count is below 1024 or the end-of-session mark, its session is the one of the
  client (any, when none is set), and it has a payload when it announces messages. An admitted
  datagram is queued last on the channel, with the sequence number and count of its header and
  the bytes after it (none for a heartbeat or an end of session), it fixes the session of a new
  client and sets \<open>LastRecv\<close>; when the channel is full the goroutine blocks. A datagram that is
  not admitted gives an error and leaves the channel alone. The reassembly state is untouched
  in every case.
\<close>

theorem gotBuff_admits:
  assumes "n \<le> length buff"
  shows "(case DecodeHead (take n buff) of
      Ok h \<Rightarrow>
        if \<not> admissible h n c then
          \<exists>e c'. gotBuff now buff n c = Some (Err e, c') \<and> same_core c c' \<and> ch c' = ch c
        else if length (ch c) < chCap then
          \<exists>c'. gotBuff now buff n c = Some (Ok (), c') \<and> same_core c c' \<and> LastRecv c' = time_unix now \<and>
            session c' = (if session c = [] then Session h else session c) \<and>
            ch c' = ch c @ [\<lparr>bufSeqNo = SeqNo h, msgCnt = MessageCnt h,
              dataBuf = (if MessageCnt h = 0 \<or> MessageCnt h = 0xffff then [] else drop 20 (take n buff))\<rparr>]
        else gotBuff now buff n c = None
    | _ \<Rightarrow> \<exists>c'. gotBuff now buff n c = Some (Err ErrDecodeHead, c') \<and> same_core c c' \<and> ch c' = ch c \<and>
        nError c' = nError c + 1)"
proof (cases "DecodeHead (take n buff)")
  case (Ok h)
  let ?c = "c\<lparr>nRecvs := nRecvs c + 1\<rparr>"
  have n: "20 \<le> n" using DecodeHead_length [OF Ok] assms by simp
  obtain r c1 where k: "check_head now h n ?c = (r, c1)" by fastforce
  note fr = check_head_frame [OF k]
  have adm: "r = Ok () \<longleftrightarrow> admissible h n c"
    using check_head_iff [OF n, of now h ?c] k by (auto simp: admissible_def)
  have g: "gotBuff now buff n c =
      (case r of Ok u \<Rightarrow> map_option (Pair (Ok ())) (send_ch \<lparr>bufSeqNo = SeqNo h, msgCnt = MessageCnt h,
          dataBuf = (if MessageCnt h \<noteq> 0xffff \<and> MessageCnt h \<noteq> 0 then go_slice buff headSize n else [])\<rparr> c1)
       | Err e \<Rightarrow> Some (Err e, c1) | Panic p \<Rightarrow> Some (Panic p, c1))"
    using assms Ok k by (cases r) (simp_all add: gotBuff_def Let_def)
  show ?thesis
  proof (cases "admissible h n c")
    case True
    then have r: "r = Ok ()" using adm by simp
    then have lr: "LastRecv c1 = time_unix now" using k by (auto simp: check_head_def Let_def split: if_splits)
    show ?thesis
    proof (cases "length (ch c) < chCap")
      case room: True
      obtain c' where c': "gotBuff now buff n c = Some (Ok (), c')" "LastRecv c' = time_unix now"
        using g r fr(8) room lr by (simp add: send_ch_def)
      with gotBuff_effect_on_state [OF c'(1) assms] Ok True room show ?thesis by auto
    next
      case False
      then show ?thesis using g r fr(8) Ok True by (simp add: send_ch_def)
    qed
  next
    case False
    then obtain e where "r = Err e" using adm fr(1) by (cases r) auto
    with False g fr Ok show ?thesis by (simp add: same_core_def)
  qed
qed (use assms DecodeHead_no_panic [of "take n buff"] in \<open>auto simp: gotBuff_def Let_def same_core_def\<close>)

theorem gotBuff_admits_witness:
  "\<exists>c'. gotBuff 0 (replicate 17 0 @ [9, 0, 1, 0, 1, 5]) 23 zero_client = Some (Ok (), c') \<and>
    ch c' = [\<lparr>bufSeqNo = 9, msgCnt = 1, dataBuf = [0, 1, 5]\<rparr>] \<and> session c' = replicate 10 0"
proof -
  let ?b = "replicate 17 0 @ [9, 0, 1, 0, 1, 5] :: byte list"
  have "DecodeHead (take 23 ?b) = Ok \<lparr>Session = replicate 10 0, SeqNo = 9, MessageCnt = 1\<rparr>" "drop 20 (take 23 ?b) = [0, 1, 5]"
    by code_simp+
  moreover have "admissible \<lparr>Session = replicate 10 0, SeqNo = 9, MessageCnt = 1\<rparr> 23 zero_client"
    by (simp add: admissible_def)
  ultimately show ?thesis
    using gotBuff_admits [of 23 ?b zero_client 0] by (auto simp: chCap_def)
qed

text \<open>
  A client that was created: \<open>NewClient\<close> succeeds exactly when the connection opens; the
  client then listens to a multicast group (224.0.0.1 when the address given is not one),
  expects the requested sequence number or 1, has one request server per configured one, and
  an empty channel, cache and hand-over.
\<close>

theorem NewClient_initial:
  assumes "NewClient parseIP toInt ifByName open_conn now udpAddr port opt h = r"
  shows "(case r of
      Ok c \<Rightarrow> IsMulticast (dstIP c) \<and> dstPort c = port \<and> length (reqSrv c) = length (Srvs opt) \<and>
        seqNo c = (if NextSeq opt = 0 then 1 else NextSeq opt) \<and> Running c \<and> client_ok c \<and>
        cache_at (cache c) = (\<lambda>n. None) \<and> ch c = [] \<and> ready c = None \<and>
        open_conn (dstIP c) port (if IfName opt = [] then None else ifByName (IfName opt)) = None
    | Err e \<Rightarrow> \<exists>ip. open_conn ip port (if IfName opt = [] then None else ifByName (IfName opt)) = Some e
    | Panic p \<Rightarrow> False)"
proof -
  define ip where "ip = (if IsMulticast (parseIP udpAddr) then parseIP udpAddr else net_IPv4 224 0 0 1)"
  let ?if = "if IfName opt = [] then None else ifByName (IfName opt)"
  have "IsMulticast (net_IPv4 224 0 0 1)" by code_simp
  then have mc: "IsMulticast ip" by (simp add: ip_def)
  show ?thesis
  proof (cases "open_conn ip port ?if")
    case None
    have "\<exists>c. r = Ok c \<and> dstIP c = ip \<and> dstPort c = port \<and> length (reqSrv c) = length (Srvs opt)"
      using None unfolding assms [symmetric]
      by (cases "IsMulticast (parseIP udpAddr)"; cases "IfName opt = []")
        (simp_all add: NewClient_def Let_def ip_def)
    then obtain c where "r = Ok c" "dstIP c = ip" "dstPort c = port" "length (reqSrv c) = length (Srvs opt)"
      by blast
    with None mc NewClient_cases assms show ?thesis by fastforce
  next
    case (Some e)
    then have "r = Err e" using assms by (auto simp: NewClient_def Let_def ip_def split: if_splits)
    with Some show ?thesis by auto
  qed
qed

theorem NewClient_initial_witness:
  "\<exists>c. NewClient (\<lambda>a. [10, 0, 0, 1]) (\<lambda>a. 0) (\<lambda>i. None) (\<lambda>ip p ifn. None) 0
     ''10.0.0.1'' 5858 \<lparr>Srvs = [], IfName = [], NextSeq = 0\<rparr> 7 = Ok c \<and> IsMulticast (dstIP c) \<and> seqNo c = 1"
proof -
  obtain c where c: "NewClient (\<lambda>a. [10, 0, 0, 1]) (\<lambda>a. 0) (\<lambda>i. None) (\<lambda>ip p ifn. None) 0
     ''10.0.0.1'' 5858 \<lparr>Srvs = [], IfName = [], NextSeq = 0\<rparr> 7 = Ok c"
    by (simp add: NewClient_def Let_def)
  from NewClient_initial [OF c] c show ?thesis by simp
qed

end
