(* ===== verification/Cache_Memory.thy ===== *)
theory Cache_Memory
  imports Client_Live Handlers
begin

section \<open>No panics, and the memory the cache takes\<close>

text \<open>
  The page array of the cache only grows, by chunks of 16 pages of 2^20 pointers (128 MB), up to
  the page of the largest sequence number stored. On a network whose data packets lie below \<open>B\<close>
  the client never holds more than \<open>pages_for B\<close> pages, and no handler panics. The model has no
  limit on memory, so what a real process survives is decided by that number: a single datagram
  with a large sequence number makes the client ask for as many pages as it takes to get there.
\<close>

subsection \<open>Growth of the page array\<close>

definition pages_for :: "nat \<Rightarrow> nat" where
  "pages_for B = pageIncrement * (B div (pageIncrement * maxPageMsg) + 1)"

definition pages_to :: "u64 \<Rightarrow> nat" where
  "pages_to s = pageIncrement * (page_of s div pageIncrement + 1)"

lemma pages_to_le: "unat s < B \<Longrightarrow> pages_to s \<le> pages_for B"
  by (simp add: pages_to_def pages_for_def page_of_div div_mult2_eq [symmetric] mult.commute div_le_mono)

lemma grow_size:
  "pageIncrement dvd nPage mc \<Longrightarrow>
   nPage (grow page mc) = max (nPage mc) (pageIncrement * (page div pageIncrement + 1))"
proof (induction page mc rule: grow.induct)
  case (1 page mc)
  from "1.prems" obtain k where k: "nPage mc = pageIncrement * k" by (elim dvdE)
  have pos: "0 < pageIncrement" by (simp add: pageIncrement_def)
  show ?case
  proof (cases "nPage mc \<le> page")
    case True
    then have "k \<le> page div pageIncrement" using k pos by (simp add: less_eq_div_iff_mult_less_eq mult.commute)
    then have "nPage mc + pageIncrement \<le> pageIncrement * (page div pageIncrement + 1)"
      unfolding k by (simp add: algebra_simps)
    with "1.IH" [OF True] "1.prems" True show ?thesis by (simp add: grow.simps [of page mc] max_def)
  next
    case False
    then have "page div pageIncrement < k" using k pos by (simp add: div_less_iff_less_mult mult.commute not_le)
    then have "pageIncrement * (page div pageIncrement + 1) \<le> nPage mc" unfolding k by (intro mult_le_mono2) simp
    with False show ?thesis by (simp add: grow.simps [of page mc] max_def)
  qed
qed

lemma Upset_size:
  assumes "cache_ok mc" "Upset s p mc = Ok (r, mc')"
  shows "nPage mc' = max (nPage mc) (pages_to s)"
proof -
  have d: "pageIncrement dvd nPage mc" using assms(1) by (simp add: cache_ok_def)
  have pos: "0 < pageIncrement" by (simp add: pageIncrement_def)
  have "nPage (if nPage mc \<le> page_of s then grow (page_of s) mc else mc) = max (nPage mc) (pages_to s)"
  proof (cases "nPage mc \<le> page_of s")
    case False
    obtain k where k: "nPage mc = pageIncrement * k" using d by (elim dvdE)
    then have "page_of s div pageIncrement < k" using False pos by (simp add: div_less_iff_less_mult mult.commute not_le)
    then have "pages_to s \<le> nPage mc" unfolding k pages_to_def by (intro mult_le_mono2) simp
    with False show ?thesis by (simp add: max_def)
  qed (simp add: grow_size [OF d] pages_to_def)
  with assms(2) show ?thesis by (auto simp: Upset_def Let_def bind_outcome_Ok split: if_splits)
qed

lemma store_loop_size:
  assumes "cache_ok mc" "nPage mc \<le> pages_for B" "store_loop Upset ms s b mc = Ok (r, s', mc')"
    and "unat s + length ms \<le> B"
  shows "nPage mc' \<le> pages_for B"
  using assms
proof (induction ms arbitrary: s b mc)
  case (Cons m ms)
  obtain mc1 where u: "Upset s (Some m) mc = Ok (cache_at mc (unat s) \<noteq> None, mc1)" "cache_ok mc1"
    using Upset_correct [OF Cons.prems(1)] by blast
  have "nPage mc1 \<le> pages_for B"
    using Upset_size [OF Cons.prems(1) u(1)] Cons.prems(2,4) pages_to_le [of s B] by simp
  moreover have "unat (s + 1) \<le> unat s + 1" by (simp add: unat_word_ariths)
  then have "unat (s + 1) + length ms \<le> B" using Cons.prems(4) by simp
  ultimately show ?case using Cons.IH [OF u(2)] Cons.prems(3) u(1) by simp
qed simp

subsection \<open>The handlers stay within the bound\<close>

definition mb_below :: "nat \<Rightarrow> msgBuf \<Rightarrow> bool" where
  "mb_below B mb \<longleftrightarrow> (is_data mb \<longrightarrow> unat (bufSeqNo mb) + unat (msgCnt mb) \<le> B)"

definition dgram_below :: "nat \<Rightarrow> byte list \<Rightarrow> bool" where
  "dgram_below B p =
     (case DecodeHead p of
        Ok h \<Rightarrow> MessageCnt h = 0 \<or> MessageCnt h = 0xffff \<or> unat (SeqNo h) + unat (MessageCnt h) \<le> B
      | _ \<Rightarrow> True)"

definition small :: "nat \<Rightarrow> Client \<Rightarrow> bool" where
  "small B c \<longleftrightarrow> nPage (cache c) \<le> pages_for B \<and> list_all (mb_below B) (ch c)"

lemma small_cong: "cache c' = cache c \<Longrightarrow> ch c' = ch c \<Longrightarrow> small B c' = small B c"
  by (simp add: small_def)

lemma storeCache_small:
  assumes "cache_ok (cache c)" "small B c" "storeCache buf s c = Ok (s', c')" "unat s + length buf \<le> B"
  shows "small B c'"
proof -
  obtain r t mc where "store_loop Upset buf s False (cache c) = Ok (r, t, mc)" "cache c' = mc" "ch c' = ch c"
    using assms(3) by (auto simp: storeCache_def Let_def bind_outcome_Ok split: if_splits)
  with store_loop_size [OF assms(1)] assms(2,4) show ?thesis by (auto simp: small_def)
qed

lemma deliver_small: "deliver s res c = (f, c') \<Longrightarrow> small B c' = small B c"
  by (auto simp: deliver_def Let_def intro!: small_cong split: if_splits outcome.splits option.splits)

lemma front_small:
  assumes "client_ok c" "small B c" "mb_below B mb" "doMsgBuf_front now mb c = (f, c')"
  shows "small B c'"
proof (cases "is_data mb \<and> (\<exists>res. unpack mb = Ok res \<and> length res = unat (msgCnt mb))")
  case True
  then obtain res where d: "is_data mb" and res: "unpack mb = Ok res" "length res = unat (msgCnt mb)" by blast
  have st: "small B c2" if "storeCache res (bufSeqNo mb) c = Ok (s', c2)" for s' c2
    using storeCache_small [OF _ assms(2) that] assms(1,3) d res(2) by (simp add: client_ok_def mb_below_def)
  have rq: "small B (c3\<lparr>nMissed := n\<rparr>)" if "storeCache res (bufSeqNo mb) c = Ok (s', c2)" "newReq now t c2 = (q, c3)"
    for s' c2 t q c3 n
    using st [OF that(1)] that(2) newReq_frame [of now t c2] by (simp add: small_def)
  have rp: "small B (c\<lparr>nRepeats := n\<rparr>)" for n using assms(2) by (simp add: small_def)
  from assms(4) [unfolded front_data [OF d res]] show ?thesis
    using st rq rp assms(2) deliver_small [of "bufSeqNo mb" res c f c' B]
    by (auto simp: Let_def split: if_splits outcome.splits prod.splits)
next
  case False
  have sm: "small B (x c1)" if "cache (x c1) = cache c" "ch (x c1) = ch c" for x and c1 :: Client
    using that assms(2) by (simp add: small_def)
  from False assms(2,4) show ?thesis
    by (auto simp: doMsgBuf_front_def is_data_def small_def Let_def split_beta split: if_splits outcome.splits)
qed

lemma maybe_request_small: "maybe_request dial req c = Ok (out, c') \<Longrightarrow> small B c' = small B c"
  using request_frame [of dial _ c out c'] by (auto simp: maybe_request_def intro!: small_cong split: option.splits)

lemma on_tick_small: "on_tick dial now c = Ok (out, c') \<Longrightarrow> small B c' = small B c"
  using maybe_request_small [of dial _ "snd (newReq now (seqMax c) c)" out c' B]
    small_cong [of "snd (newReq now (seqMax c) c)" c B]
  by (auto simp: on_tick_def split_beta split: if_splits)

lemma on_msgBuf_small:
  assumes "client_ok c" "small B c" "on_msgBuf dial now c = Ok (out, c')"
  shows "small B c'"
proof (cases "ch c")
  case (Cons mb rest)
  let ?c = "c\<lparr>ch := rest\<rparr>"
  have c: "client_ok ?c" "small B ?c" "mb_below B mb"
    using assms(1,2) Cons by (auto simp: client_ok_def robin_ok_def small_def)
  obtain f c1 where f: "doMsgBuf_front now mb ?c = (f, c1)" by fastforce
  have "small B c1" by (rule front_small [OF c f])
  then have s: "small B (publish res c1)" "small B (c1\<lparr>lastLogTime := t\<rparr>)" for res t by (simp_all add: small_def)
  from assms(3) Cons f s \<open>small B c1\<close> show ?thesis
    by (cases f) (auto simp: on_msgBuf_def doMsgBuf_def maybe_request_small split: if_splits option.splits)
qed (use assms in \<open>auto simp: on_msgBuf_def\<close>)

lemma select_step_small:
  "client_ok c \<Longrightarrow> small B c \<Longrightarrow> select_step dial now e c = Ok (out, c') \<Longrightarrow> small B c'"
  using on_tick_small on_msgBuf_small by (cases e) (fastforce)+

lemma requestLoop_small:
  assumes "client_ok c" "small B c" "requestLoop dial es c = Ok (out, c')"
  shows "small B c'"
  using assms
proof (induction es arbitrary: c out)
  case (Cons e es)
  obtain now k where e: "e = (now, k)" by fastforce
  show ?case
  proof (cases "Running c")
    case True
    obtain o1 c1 where s: "select_step dial now k c = Ok (o1, c1)" "client_ok c1"
      using select_step_ok [OF Cons.prems(1)] by blast
    then obtain o2 where "requestLoop dial es c1 = Ok (o2, c')"
      using Cons.prems(3) True e by (auto simp: bind_outcome_Ok)
    with Cons.IH [OF s(2) select_step_small [OF Cons.prems(1,2) s(1)]] show ?thesis .
  qed (use Cons.prems e in simp)
qed simp

lemma below_queues: "dgram_below B p \<Longrightarrow> queues (mb_below B) p"
  by (auto simp: queues_def dgram_below_def mb_below_def is_data_def)

lemma doMsgLoop_round_small:
  assumes "doMsgLoop_round now ev c = Some (r, c')" "\<forall>p \<in> set (datagrams ev). dgram_below B p" "small B c"
  shows "small B c'"
  using doMsgLoop_round_queues [OF assms(1), of "mb_below B"] assms(2,3) below_queues
  by (auto simp: small_def same_core_def)

subsection \<open>The system\<close>

lemma started_small:
  assumes "started s0 s"
  shows "small B (client s)"
proof -
  have "nPage (cache c) = pageIncrement \<and> ch c = []"
    if "NewClient parseIP toInt ifByName open_conn now udpAddr port opt h = Ok c"
    for parseIP toInt ifByName open_conn now udpAddr port opt h c
    using that by (auto simp: NewClient_def Let_def Init_def split: option.splits)
  then show ?thesis using assms by (fastforce simp: started_def small_def pages_for_def)
qed

lemma sys_step_small:
  assumes step: "sys_step wire s t" and wire: "\<forall>p. wire p \<longrightarrow> dgram_below B p"
    and ok: "client_ok (client s)" and sm: "small B (client s)"
  shows "small B (client t)"
  using step
proof cases
  case (receive ev now r c')
  with doMsgLoop_round_small [OF receive(4)] wire sm show ?thesis by auto
next
  case (tick dial now out c')
  with on_tick_small [OF tick(4)] sm show ?thesis by simp
next
  case (work_return mb rest now req c1 dial out c')
  note c1 = front_small [OF _ _ _ work_return(5), of B]
  from c1 maybe_request_small [OF work_return(6)] work_return(1,4) ok sm show ?thesis
    by (auto simp: client_ok_def robin_ok_def small_def)
next
  case (work_error mb rest now e c1 c')
  from front_small [OF _ _ _ work_error(5), of B] work_error(1,4,6) ok sm show ?thesis
    by (auto simp: client_ok_def robin_ok_def small_def)
next
  case (work_front mb rest now res c')
  from front_small [OF _ _ _ work_front(5), of B] work_front(1,4) ok sm show ?thesis
    by (auto simp: client_ok_def robin_ok_def small_def)
qed (use sm in \<open>auto simp: small_def read_take_def read_check_def Let_def split_beta\<close>)

interpretation bounded_net:
  step_system "started s0" "sys_step (\<lambda>p. wire p \<and> dgram_below B p)"
    "\<lambda>s. client_ok (client s) \<and> small B (client s)"
  for s0 wire B
  by unfold_locales (auto intro: started_ok started_small sys_step_ok sys_step_small)

subsection \<open>Property\<close>

text \<open>
  C7. No handler panics, and what the client needs of memory is bounded by the sequence numbers
  on the wire: on a network that delivers any datagrams at all, well-formed or not, whose data
  packets end at \<open>B\<close> at the latest, in every reachable state the request loop returns under every
  schedule of ticks and buffers and a round of the receive loop does not end in a panic; the
  client they leave is well-formed, and its cache has at most \<open>pages_for B\<close> pages. Memory for
  that many pages is what the claim presupposes of the process: allocation does not fail in the
  model. (For \<open>B\<close> of \<open>2^64 + 2^16\<close> every datagram qualifies, and the bound is then useless.)
\<close>

theorem handlers_never_panic:
  assumes "reachable (started s0) (sys_step wire) s" "\<forall>p. wire p \<longrightarrow> dgram_below B p"
  shows "(\<exists>out c'. requestLoop dial es (client s) = Ok (out, c') \<and> client_ok c' \<and>
      nPage (cache c') \<le> pages_for B) \<and>
    (\<forall>now ev r c'. recv_fits ev \<longrightarrow> (\<forall>p \<in> set (datagrams ev). wire p) \<longrightarrow>
       doMsgLoop_round now ev (client s) = Some (r, c') \<longrightarrow>
       \<not> is_panic r \<and> client_ok c' \<and> nPage (cache c') \<le> pages_for B)"
proof -
  have w: "(\<lambda>p. wire p \<and> dgram_below B p) = wire" using assms(2) by auto
  have c: "client_ok (client s)" "small B (client s)"
    using bounded_net.reachable_inv [of s0 wire B s] assms(1) unfolding w by blast+
  obtain out c' where "requestLoop dial es (client s) = Ok (out, c')" "client_ok c'"
    using requestLoop_ok [OF c(1)] by blast
  moreover have "nPage (cache c') \<le> pages_for B"
    using requestLoop_small [OF c calculation(1)] by (simp add: small_def)
  moreover have "\<not> is_panic r \<and> client_ok c' \<and> nPage (cache c') \<le> pages_for B"
    if "recv_fits ev" "\<forall>p \<in> set (datagrams ev). wire p" "doMsgLoop_round now ev (client s) = Some (r, c')"
    for now ev r c'
    using doMsgLoop_round_ok [OF c(1) that(3,1)] doMsgLoop_round_small [OF that(3) _ c(2)] that(2) assms(2)
    by (auto simp: small_def)
  ultimately show ?thesis by blast
qed

text \<open>
  The session of two messages below sequence number 5: after its first packet has come in and
  lies on the channel, the request loop processes it, and a second batch with a message ahead of
  its turn and a datagram of three bytes comes in.
\<close>

definition demo_wire :: "byte list \<Rightarrow> bool" where
  "demo_wire p \<longleftrightarrow> genuine_dgram demo_src 3 p \<and> dgram_below 5 p"

definition demo_first :: "sys option" where
  "demo_first = run (\<lambda>a. False) demo_wire
     [AReceive 0 (MRecvOk [demo_head 1 0 1 @ [0, 1, 1]] demo_addr)] demo_start"

definition demo_second :: recv_event where
  "demo_second = MRecvOk [demo_head 2 0 1 @ [0, 1, 2], [1, 2, 3]] demo_addr"

theorem handlers_never_panic_witness:
  "\<exists>s. demo_first = Some s \<and> ch (client s) \<noteq> [] \<and>
    (\<exists>out c'. requestLoop (\<lambda>a. True) [(0, Tick), (5, Recv)] (client s) = Ok (out, c') \<and> client_ok c' \<and>
      nPage (cache c') \<le> 16) \<and>
    (\<exists>r c'. doMsgLoop_round 0 demo_second (client s) = Some (r, c') \<and>
      \<not> is_panic r \<and> client_ok c' \<and> nPage (cache c') \<le> 16)"
proof -
  have "map_option (\<lambda>s. (ch (client s) = [], Option.is_none (doMsgLoop_round 0 demo_second (client s)))) demo_first =
      Some (False, False)"
    by code_simp
  then obtain s where s: "demo_first = Some s" "ch (client s) \<noteq> []"
      "\<not> Option.is_none (doMsgLoop_round 0 demo_second (client s))" by auto
  then obtain r c' where r: "doMsgLoop_round 0 demo_second (client s) = Some (r, c')"
    by (cases "doMsgLoop_round 0 demo_second (client s)") auto
  have "started 1 demo_start" using demo_started by (simp add: client_start_def)
  then have reach: "reachable (started 1) (sys_step demo_wire) s"
    using s(1) reach_init run_reachable unfolding demo_first_def by metis
  have ev: "recv_fits demo_second" "\<forall>p \<in> set (datagrams demo_second). demo_wire p" by code_simp+
  have below: "\<forall>p. demo_wire p \<longrightarrow> dgram_below 5 p" by (simp add: demo_wire_def)
  have "pages_for 5 = 16" by (simp add: pages_for_def pageIncrement_def maxPageMsg_def)
  then show ?thesis using handlers_never_panic [OF reach below] s(1,2) r ev by metis
qed

subsection \<open>One datagram\<close>

lemma storeCache_one:
  assumes "cache_ok (cache c)" "unat s + 1 < 18446744073709551616"
  shows "\<exists>c'. storeCache [m] s c = Ok (0, c') \<and> nPage (cache c') = max (nPage (cache c)) (pages_to s) \<and>
    maxPageNo (cache c') = max (maxPageNo (cache c)) (page_of s)"
proof -
  obtain r mc where u: "Upset s (Some m) (cache c) = Ok (r, mc)" "cache_ok mc"
    using Upset_correct [OF assms(1)] by blast
  have "maxPageNo mc = max (maxPageNo (cache c)) (page_of s)"
    using u(1) grow_facts [of "cache c" "page_of s"] assms(1)
    by (auto simp: Upset_def Let_def bind_outcome_Ok cache_ok_def max_def split: if_splits)
  moreover obtain c' where c': "storeCache [m] s c = Ok (0, c')" using storeCache_effect [OF assms(1), of s "[m]"] assms(2) by auto
  moreover have "cache c' = mc" using c' u(1) by (auto simp: storeCache_def Let_def bind_outcome_Ok split: if_splits)
  ultimately show ?thesis using Upset_size [OF assms(1) u(1)] by auto
qed

text \<open>
  C35. One datagram decides how much memory the client takes: a packet with a single message,
  which only has to carry the session (any, at the start) and a sequence number \<open>s\<close> ahead of its
  turn, is admitted and stored, and the cache then has a page for every 2^20 sequence numbers
  from 0 to \<open>s\<close>, in chunks of 16, whatever was received before.
\<close>

theorem one_datagram_grows_cache:
  assumes "client_ok c" "Running c" "ch c = []" "DecodeHead p = Ok h" "Unmarshal (drop 20 p) 1 = Ok [m]"
    and "MessageCnt h = 1" "session c = [] \<or> session c = Session h" "20 < length p"
    and "seqNo c < SeqNo h" "unat (SeqNo h) + 1 < 18446744073709551616"
  shows "\<exists>c1 c2. doMsgLoop_round now (RecvOk p (length p) rAddr) c = Some (Ok (), c1) \<and>
    requestLoop dial [(now', Recv)] c1 = Ok ([], c2) \<and>
    nPage (cache c2) = max (nPage (cache c)) (16 * (unat (SeqNo h) div 16777216 + 1)) \<and>
    length (msgPages (cache c2)) = nPage (cache c2)"
proof -
  let ?mb = "\<lparr>bufSeqNo = SeqNo h, msgCnt = 1, dataBuf = drop 20 p\<rparr>"
  have "admissible h (length p) c" using assms(6-8) by (auto simp: admissible_def maxMessages_def)
  then obtain c0 where g: "gotBuff now p (length p) c = Some (Ok (), c0)"
    using gotBuff_iff [of "length p" p now c] assms(3,4) by (auto simp: chCap_def)
  from gotBuff_effect_on_state [OF g] assms(3,4,6) have c0: "same_core c c0" "ch c0 = [?mb]" by auto
  define c1 where "c1 = learn_server rAddr c0"
  have r: "doMsgLoop_round now (RecvOk p (length p) rAddr) c = Some (Ok (), c1)"
    using g by (simp add: handle_packet_def c1_def)
  from c0 have c1: "same_core c c1" "ch c1 = [?mb]" by (auto simp: c1_def learn_server_def same_core_def)
  let ?c = "c1\<lparr>ch := []\<rparr>"
  have ck: "cache_ok (cache ?c)" "Running c1" "seqNo ?c = seqNo c" "cache ?c = cache c"
    using c1(1) assms(1,2) by (auto simp: same_core_def client_ok_def)
  obtain c2 where c2: "storeCache [m] (SeqNo h) ?c = Ok (0, c2)"
      "nPage (cache c2) = max (nPage (cache c)) (pages_to (SeqNo h))"
    using storeCache_one [OF ck(1) assms(10)] ck(4) by auto
  have un: "unpack ?mb = Ok [m]" using assms(5,8) by (simp add: unpack_def)
  have "unat (SeqNo h + 1) = unat (SeqNo h) + 1" using unat_Suc_u64 [of "SeqNo h"] assms(10) by simp
  then have "\<not> SeqNo h + 1 < seqNo c" using assms(9) by (simp add: word_less_nat_alt)
  then have "doMsgBuf_front now' ?mb ?c = (FReturn None, c2)"
    using front_data [of ?mb "[m]" now' ?c] un ck(3) assms(9) c2(1) by (simp add: is_data_def Let_def)
  then have "requestLoop dial [(now', Recv)] c1 = Ok ([], c2)"
    using ck(2) c1(2) by (simp add: on_msgBuf_def doMsgBuf_def maybe_request_def)
  moreover have "pages_to (SeqNo h) = 16 * (unat (SeqNo h) div 16777216 + 1)"
    by (simp add: pages_to_def pageIncrement_def page_of_div maxPageMsg_def div_mult2_eq [symmetric])
  moreover have "cache_ok (cache c2)" using storeCache_total [OF ck(1), of "[m]" "SeqNo h"] c2(1) by auto
  then have "length (msgPages (cache c2)) = nPage (cache c2)" by (simp add: cache_ok_def)
  ultimately show ?thesis using r c2(2) by auto
qed

text \<open>
  A new client and a datagram of 23 bytes with sequence number 2^63: 2^43 pages and a chunk.
\<close>

definition demo_far :: "byte \<Rightarrow> byte list" where
  "demo_far x = [116, 101, 115, 116, 48, 32, 32, 32, 32, 32, x, 0, 0, 0, 0, 0, 0, 0, 0, 1, 0, 1, 7]"

theorem one_datagram_grows_cache_witness:
  "\<exists>c1 c2. doMsgLoop_round 0 (RecvOk (demo_far 128) 23 demo_addr) (client demo_start) = Some (Ok (), c1) \<and>
    requestLoop (\<lambda>a. True) [(0, Recv)] c1 = Ok ([], c2) \<and> nPage (cache c2) = 8796093022224"
proof -
  let ?h = "\<lparr>Session = [116, 101, 115, 116, 48], SeqNo = 0x8000000000000000, MessageCnt = 1\<rparr> :: Header"
  have d: "DecodeHead (demo_far 128) = Ok ?h" "Unmarshal (drop 20 (demo_far 128)) 1 = Ok [\<lparr>Data = [7]\<rparr>]"
    "length (demo_far 128) = 23" "ch (client demo_start) = []" "Running (client demo_start)"
    "session (client demo_start) = []" "seqNo (client demo_start) = 1" "nPage (cache (client demo_start)) = 16"
    by code_simp+
  have "client_ok (client demo_start)" using demo_started started_ok by (simp add: client_start_def)
  from one_datagram_grows_cache [OF this d(5,4,1,2), of 0 demo_addr "\<lambda>a. True" 0] d show ?thesis by auto
qed

end
