(* ===== verification/Retransmission.thy ===== *)
theory Retransmission
  imports Delivery
begin

section \<open>Retransmission requests\<close>

text \<open>
  When the client asks for a retransmission, what it asks for, how often and of whom:
  the header \<open>newReq\<close> encodes, the rate limit over a schedule of the request loop, which
  packets lead to a request, and the server a request goes to.
\<close>

subsection \<open>The request packet\<close>

text \<open>The number of messages asked for: the gap, at most the window.\<close>

definition gap_count :: "u64 \<Rightarrow> Client \<Rightarrow> nat" where
  "gap_count s c = min (unat s - unat (seqNo c)) 65400"

definition req_header :: "u64 \<Rightarrow> Client \<Rightarrow> Header" where
  "req_header s c = \<lparr>Session = session c, SeqNo = seqNo c, MessageCnt = of_nat (gap_count s c)\<rparr>"

lemma newReq_cases:
  "newReq now s c =
    (if s \<le> seqNo c then (None, c)
     else
       let c1 = c\<lparr>seqMax := max (seqMax c) s\<rparr>
       in if time_sub now (reqLast c) < reqInterval then (None, c1)
          else (Some (pad_session (session c) @ PutUint64 (seqNo c) @ PutUint16 (of_nat (gap_count s c))),
                c1\<lparr>reqLast := now\<rparr>))"
proof (cases "s \<le> seqNo c")
  case False
  then have sub: "unat (s - seqNo c) = unat s - unat (seqNo c)"
    by (simp add: unat_sub word_le_nat_alt)
  have cnt: "ucast (if nakWindow < s - seqNo c then nakWindow else s - seqNo c) =
      (of_nat (gap_count s c) :: u16)"
    by (auto simp: gap_count_def sub [symmetric] nakWindow_def word_less_nat_alt min_def)
  have c1: "(if seqMax c < s then c\<lparr>seqMax := s\<rparr> else c) = c\<lparr>seqMax := max (seqMax c) s\<rparr>"
    by (auto simp: max_def)
  show ?thesis
    using False cnt c1 EncodeHead_Ok [of "replicate 20 0"]
    by (auto simp: newReq_def Let_def headSize_def split: if_splits)
qed (simp add: newReq_def)

lemma gap_count_bounds: "\<not> s \<le> seqNo c \<Longrightarrow> 1 \<le> gap_count s c \<and> gap_count s c \<le> 65400"
  by (auto simp: gap_count_def word_le_nat_alt)

lemma gap_count_u16: "unat (of_nat (gap_count s c) :: u16) = gap_count s c"
  by (rule unat_of_nat_u16) (simp add: gap_count_def)

text \<open>The server reads the request as the client means it.\<close>

lemma decode_request:
  assumes "good_session (session c)"
  shows "DecodeHead (pad_session (session c) @ PutUint64 (seqNo c) @ PutUint16 (of_nat (gap_count s c))) =
    Ok (req_header s c)"
  using DecodeHead_Ok [of "pad_session (session c)" "seqNo c" "of_nat (gap_count s c)" "[]"]
    good_session_trim [OF assms] by (simp add: req_header_def)

lemma newReq_clock:
  assumes "newReq now s c = (r, c')"
  shows "reqLast c' = (if r = None then reqLast c else now)"
    and "r \<noteq> None \<Longrightarrow> reqInterval \<le> time_sub now (reqLast c)"
  using assms by (auto simp: newReq_cases Let_def split: if_splits)

subsection \<open>The clock of the requests\<close>

lemma storeCache_clock: "storeCache buf s c = Ok (s', c') \<Longrightarrow> reqLast c' = reqLast c"
  by (auto simp: storeCache_def Let_def outcome_simps split: if_splits)

lemma deliver_clock:
  assumes "deliver s res c = (f, c')"
  shows "reqLast c' = reqLast c \<and> (\<forall>r. f \<noteq> FReturn r)"
  using assms
  by (auto simp: deliver_def Let_def split: if_splits outcome.splits option.splits)

definition clock_step :: "int \<Rightarrow> byte list option \<Rightarrow> Client \<Rightarrow> Client \<Rightarrow> bool" where
  "clock_step now req c c' \<longleftrightarrow>
     reqLast c' = (if req = None then reqLast c else now) \<and>
     (req \<noteq> None \<longrightarrow> reqInterval \<le> time_sub now (reqLast c))"

definition front_req :: "front \<Rightarrow> byte list option" where
  "front_req f = (case f of FReturn r \<Rightarrow> r | _ \<Rightarrow> None)"

lemma front_clock:
  assumes "doMsgBuf_front now mb c = (f, c')"
  shows "clock_step now (front_req f) c c'"
proof (cases "unpack mb")
  case (Ok res)
  let ?c = "eos_update mb c" and ?s = "bufSeqNo mb"
  have nr: "reqLast (snd (newReq now s c1)) = (if fst (newReq now s c1) = None then reqLast c1 else now)"
    "fst (newReq now s c1) = Some b \<Longrightarrow> reqInterval \<le> time_sub now (reqLast c1)" for s c1 b
    using newReq_clock [of now s c1] by (metis option.distinct(1) prod.collapse)+
  have del: "clock_step now (front_req f) c c'" if "deliver ?s res ?c = (f, c')"
    using deliver_clock [OF that] by (cases f) (auto simp: clock_step_def front_req_def)
  show ?thesis
  proof (cases "storeCache res ?s ?c")
    case (Ok y)
    have "reqLast (snd y) = reqLast c" using storeCache_clock [of res ?s ?c "fst y" "snd y"] Ok by simp
    with Ok \<open>unpack mb = Ok res\<close> assms del nr [of _ "snd y"] nr [of _ ?c] show ?thesis
      by (auto simp: doMsgBuf_front_def Let_def front_req_def clock_step_def split_beta split: if_splits)
  qed (use \<open>unpack mb = Ok res\<close> assms del nr [of _ ?c] in
      \<open>auto simp: doMsgBuf_front_def Let_def front_req_def clock_step_def split_beta split: if_splits\<close>)
qed (use assms in \<open>auto simp: doMsgBuf_front_def front_req_def clock_step_def\<close>)

lemma doMsgBuf_clock:
  assumes "doMsgBuf now mb c = (r, c')"
  shows "clock_step now (case r of Ok req \<Rightarrow> req | _ \<Rightarrow> None) c c'"
proof -
  obtain f c1 where f: "doMsgBuf_front now mb c = (f, c1)" by fastforce
  from front_clock [OF f] assms f show ?thesis
    by (cases f) (auto simp: doMsgBuf_def clock_step_def front_req_def publish_def)
qed

lemma maybe_request_clock:
  assumes "maybe_request dial req c = Ok (out, c')"
  shows "reqLast c' = reqLast c \<and> length out \<le> 1 \<and> (req = None \<longrightarrow> out = [])"
  using assms by (auto simp: maybe_request_def request_def Let_def split: option.splits if_splits)

text \<open>A step of the request loop sends at most one request, and not within the interval.\<close>

lemma select_step_clock:
  assumes "select_step dial now e c = Ok (out, c')"
  shows "length out \<le> 1 \<and>
    (reqLast c' = reqLast c \<and> out = [] \<or>
     reqLast c' = now \<and> reqInterval \<le> time_sub now (reqLast c))"
proof (cases e)
  case Tick
  obtain req c1 where n: "newReq now (seqMax c) c = (req, c1)" by fastforce
  show ?thesis
    using assms Tick n newReq_clock [OF n] maybe_request_clock [of dial req c1 out c']
    by (auto simp: on_tick_def split: if_splits)
next
  case Recv
  show ?thesis
  proof (cases "ch c")
    case Nil
    with assms Recv show ?thesis by (simp add: on_msgBuf_def)
  next
    case (Cons mb rest)
    obtain r c1 where d: "doMsgBuf now mb (c\<lparr>ch := rest\<rparr>) = (r, c1)" by fastforce
    show ?thesis
      using assms Recv Cons d doMsgBuf_clock [OF d] maybe_request_clock [of dial _ c1 out c']
      by (cases r) (auto simp: on_msgBuf_def clock_step_def split: if_splits)
  qed
qed

lemma requestLoop_ConsE:
  assumes "requestLoop dial ((now, e) # es) c = Ok (out, c')"
  obtains (stop) "\<not> Running c" "out = []" "c' = c"
  | (go) out1 c1 out2 where "Running c" "select_step dial now e c = Ok (out1, c1)"
      "requestLoop dial es c1 = Ok (out2, c')" "out = out1 @ out2"
  using assms by (auto simp: outcome_simps split: if_splits)

lemma requestLoop_quiet:
  assumes "requestLoop dial es c = Ok (out, c')"
    "\<forall>(now, e) \<in> set es. time_sub now (reqLast c) < reqInterval"
  shows "out = []"
  using assms
proof (induction es arbitrary: c out)
  case (Cons ev es)
  obtain now e where ev: "ev = (now, e)" by fastforce
  from Cons.prems(1) [unfolded ev] show ?case
  proof (cases rule: requestLoop_ConsE)
    case (go out1 c1 out2)
    from select_step_clock [OF go(2)] Cons.prems(2) ev have "reqLast c1 = reqLast c" "out1 = []"
      by auto
    with Cons.IH [OF go(3)] go(4) Cons.prems(2) show ?thesis by auto
  qed simp
qed simp

lemma requestLoop_window:
  assumes "requestLoop dial es c = Ok (out, c')"
    "\<forall>(now, e) \<in> set es. t \<le> now \<and> now < t + reqInterval"
  shows "length out \<le> 1"
  using assms
proof (induction es arbitrary: c out)
  case (Cons ev es)
  obtain now e where ev: "ev = (now, e)" by fastforce
  from Cons.prems(1) [unfolded ev] show ?case
  proof (cases rule: requestLoop_ConsE)
    case (go out1 c1 out2)
    show ?thesis
    proof (cases "out1 = []")
      case True
      with Cons.IH [OF go(3)] go(4) Cons.prems(2) show ?thesis by auto
    next
      case False
      with select_step_clock [OF go(2)] have now: "reqLast c1 = now" "length out1 \<le> 1" by auto
      have "\<forall>(now', e') \<in> set es. time_sub now' (reqLast c1) < reqInterval"
        using Cons.prems(2) now(1) ev by (fastforce simp: time_sub_def reqInterval_def)
      from requestLoop_quiet [OF go(3) this] now(2) go(4) show ?thesis by simp
    qed
  qed simp
qed simp

subsection \<open>The server a request goes to\<close>

lemma request_connected:
  assumes "connReq c = Some a" "request dial b c = Ok (out, c')"
  shows "connReq c' = Some a \<and> (\<forall>p \<in> set out. fst p = a)"
  using assms by (auto simp: request_def Let_def split: if_splits)

lemma newReq_connReq: "connReq (snd (newReq now s c)) = connReq c"
  by (simp add: newReq_cases Let_def)

lemma eos_update_connReq: "connReq (eos_update mb c) = connReq c"
  by (simp add: eos_update_def Let_def)

lemma storeCache_connReq: "storeCache buf s c = Ok y \<Longrightarrow> connReq (snd y) = connReq c"
  by (auto simp: storeCache_def Let_def outcome_simps split: if_splits)

lemma deliver_connReq: "deliver s res c = (f, c') \<Longrightarrow> connReq c' = connReq c"
  by (auto simp: deliver_def Let_def split: if_splits outcome.splits option.splits)

lemmas connReq_frame = newReq_connReq eos_update_connReq

lemma front_connReq:
  assumes "doMsgBuf_front now mb c = (f, c')"
  shows "connReq c' = connReq c"
proof (cases "unpack mb")
  case (Ok res)
  let ?st = "storeCache res (bufSeqNo mb) (eos_update mb c)"
  have del: "connReq c' = connReq c" if "deliver (bufSeqNo mb) res (eos_update mb c) = (f, c')"
    using deliver_connReq [OF that] by (simp add: connReq_frame)
  have "connReq b = connReq c" if "?st = Ok (a, b)" for a b
    using storeCache_connReq [OF that] by (simp add: connReq_frame)
  with Ok assms del show ?thesis
    by (cases ?st)
      (auto simp: doMsgBuf_front_def Let_def connReq_frame split_beta split: if_splits)
qed (use assms in \<open>auto simp: doMsgBuf_front_def\<close>)

lemma doMsgBuf_connReq:
  assumes "doMsgBuf now mb c = (r, c')"
  shows "connReq c' = connReq c"
proof -
  obtain f c1 where f: "doMsgBuf_front now mb c = (f, c1)" by fastforce
  from front_connReq [OF f] assms f show ?thesis
    by (cases f) (auto simp: doMsgBuf_def publish_def)
qed

lemma maybe_request_connected:
  assumes "connReq c = Some a" "maybe_request dial req c = Ok (out, c')"
  shows "connReq c' = Some a \<and> (\<forall>p \<in> set out. fst p = a)"
  using assms request_connected [OF assms(1), of dial _ out c']
  by (auto simp: maybe_request_def split: option.splits)

lemma select_step_connected:
  assumes "connReq c = Some a" "select_step dial now e c = Ok (out, c')"
  shows "connReq c' = Some a \<and> (\<forall>p \<in> set out. fst p = a)"
proof (cases e)
  case Tick
  show ?thesis
    using assms Tick maybe_request_connected [of "snd (newReq now (seqMax c) c)" a dial _ out c']
    by (auto simp: on_tick_def newReq_connReq split_beta split: if_splits)
next
  case Recv
  show ?thesis
  proof (cases "ch c")
    case Nil
    with assms Recv show ?thesis by (simp add: on_msgBuf_def)
  next
    case (Cons mb rest)
    obtain r c1 where d: "doMsgBuf now mb (c\<lparr>ch := rest\<rparr>) = (r, c1)" by fastforce
    show ?thesis
      using assms Recv Cons d doMsgBuf_connReq [OF d] maybe_request_connected [of c1 a dial _ out c']
      by (cases r) (auto simp: on_msgBuf_def split: if_splits)
  qed
qed

lemma requestLoop_connected:
  assumes "requestLoop dial es c = Ok (out, c')" "connReq c = Some a"
  shows "connReq c' = Some a \<and> (\<forall>p \<in> set out. fst p = a)"
  using assms
proof (induction es arbitrary: c out)
  case (Cons ev es)
  obtain now e where ev: "ev = (now, e)" by fastforce
  from Cons.prems(1) [unfolded ev] show ?case
  proof (cases rule: requestLoop_ConsE)
    case (go out1 c1 out2)
    from select_step_connected [OF Cons.prems(2) go(2)] Cons.IH [OF go(3)] go(4)
    show ?thesis by auto
  qed (use Cons.prems in simp)
qed simp

subsection \<open>Properties\<close>

text \<open>
  C22. A retransmission request is well formed: \<open>newReq\<close> returns one only for a gap, not
  earlier than the request interval after the last one, and its 20 bytes decode to the session
  of the client, the sequence number it expects, and the size of the gap, at least 1 and cut at
  65400, so that it is never mistaken for a heartbeat or an end of session. The highest
  sequence number asked for is remembered, and the client is unchanged otherwise.
\<close>

theorem newReq_asks_for_gap:
  assumes "newReq now s c = (Some b, c')" "good_session (session c)"
  shows "seqNo c < s \<and> reqInterval \<le> time_sub now (reqLast c) \<and> length b = 20 \<and>
    DecodeHead b = Ok (req_header s c) \<and>
    unat (MessageCnt (req_header s c)) = min (unat s - unat (seqNo c)) 65400 \<and>
    1 \<le> unat (MessageCnt (req_header s c)) \<and>
    c' = c\<lparr>seqMax := max (seqMax c) s, reqLast := now\<rparr>"
proof -
  from assms(1) have c: "\<not> s \<le> seqNo c" "\<not> time_sub now (reqLast c) < reqInterval"
    "b = pad_session (session c) @ PutUint64 (seqNo c) @ PutUint16 (of_nat (gap_count s c))"
    "c' = c\<lparr>seqMax := max (seqMax c) s, reqLast := now\<rparr>"
    by (auto simp: newReq_cases Let_def split: if_splits)
  have "DecodeHead b = Ok (req_header s c)" unfolding c(3) by (rule decode_request [OF assms(2)])
  with c gap_count_bounds [OF c(1)] gap_count_u16 [of s c] show ?thesis
    by (auto simp: req_header_def gap_count_def)
qed

definition demo_gap_client :: Client where
  "demo_gap_client = zero_client\<lparr>session := [65, 66], seqNo := 5\<rparr>"

theorem newReq_asks_for_gap_witness:
  "\<exists>b c'. newReq 20000000 70000 demo_gap_client = (Some b, c') \<and>
    DecodeHead b = Ok \<lparr>Session = [65, 66], SeqNo = 5, MessageCnt = 65400\<rparr> \<and> seqMax c' = 70000"
proof -
  obtain b c' where n: "newReq 20000000 70000 demo_gap_client = (Some b, c')"
    by (simp add: newReq_cases Let_def demo_gap_client_def zero_client_def time_sub_def reqInterval_def)
  have "good_session (session demo_gap_client)"
    by (simp add: demo_gap_client_def good_session_def blank_def)
  from newReq_asks_for_gap [OF n this] n show ?thesis
    by (simp add: req_header_def gap_count_def demo_gap_client_def zero_client_def max_def)
qed

text \<open>
  C23. Requests are rate limited: whatever ticks and buffers the request loop processes within
  a window of the request interval (10 ms), it sends at most one request.
\<close>

theorem requests_rate_limited:
  assumes "client_ok c" "\<forall>(now, e) \<in> set es. t \<le> now \<and> now < t + reqInterval"
  shows "\<exists>out c'. requestLoop dial es c = Ok (out, c') \<and> length out \<le> 1"
  using requestLoop_ok [OF assms(1), of dial es] requestLoop_window [OF _ assms(2), of dial c] by blast

text \<open>Two ticks within the interval: the first sends a request, the second does not.\<close>

definition demo_ticker :: Client where
  "demo_ticker = zero_client\<lparr>cache := Init zero_cache, seqNo := 1, seqMax := 9, session := [65, 66],
     reqSrv := [\<lparr>IP = [10, 0, 0, 1], Port = 5859\<rparr>], Running := True\<rparr>"

theorem requests_rate_limited_witness:
  "\<exists>out c'. requestLoop (\<lambda>a. True) [(20000000, Tick), (29999999, Tick)] demo_ticker = Ok (out, c') \<and> length out = 1"
proof -
  have ok: "client_ok demo_ticker" using Init_zero_ok by (simp add: demo_ticker_def client_ok_def robin_ok_def)
  have "\<forall>(now, e) \<in> set [(20000000, Tick), (29999999, Tick)]. 20000000 \<le> now \<and> now < 20000000 + reqInterval"
    by (simp add: reqInterval_def)
  from requests_rate_limited [OF ok this, of "\<lambda>a. True"] obtain out c' where
    o1: "requestLoop (\<lambda>a. True) [(20000000, Tick), (29999999, Tick)] demo_ticker = Ok (out, c')" "length out \<le> 1"
    by blast
  have "(case requestLoop (\<lambda>a. True) [(20000000, Tick), (29999999, Tick)] demo_ticker of
      Ok (out, c') \<Rightarrow> out = [] | _ \<Rightarrow> True) = False" by code_simp
  with o1 show ?thesis by (cases out) auto
qed

text \<open>
  A heartbeat that announces a gap is acted on: the client counts it,
  remembers the announced sequence number as the goal of recovery, and asks for the missing
  messages at once unless it has just asked.
\<close>

theorem heartbeat_requests_gap:
  assumes "msgCnt mb = 0" "dataBuf mb = []" "seqNo c < bufSeqNo mb"
  shows "\<exists>req c'. doMsgBuf now mb c = (Ok req, c') \<and> seqNo c' = seqNo c \<and>
    seqMax c' = max (seqMax c) (bufSeqNo mb) \<and> nMissed c' = nMissed c + 1 \<and>
    (req = None \<longleftrightarrow> time_sub now (reqLast c) < reqInterval)"
  using assms
  by (auto simp: doMsgBuf_def doMsgBuf_front_def unpack_def eos_update_def newReq_cases Let_def)

theorem heartbeat_requests_gap_witness:
  "\<exists>req c'. doMsgBuf 20000000 \<lparr>bufSeqNo = 9, msgCnt = 0, dataBuf = []\<rparr> demo_gap_client = (Ok req, c') \<and>
    seqMax c' = 9 \<and> req \<noteq> None"
  using heartbeat_requests_gap [of "\<lparr>bufSeqNo = 9, msgCnt = 0, dataBuf = []\<rparr>" demo_gap_client 20000000]
  by (auto simp: demo_gap_client_def zero_client_def time_sub_def reqInterval_def)

text \<open>
  C24. A data packet ahead of its turn is cached and never leads to a request: \<open>storeCache\<close>
  looks at the slot of the message it stored last, which is never empty, so the part of
  \<open>doMsgBuf\<close> that counts a miss and asks for the gap is not reached. The gap stays unknown
  until a heartbeat or an end of session announces it.
\<close>

theorem gap_packet_never_requests:
  assumes "client_ok c" "is_data mb" "unpack mb = Ok res" "length res = unat (msgCnt mb)"
    "seqNo c < bufSeqNo mb" "unat (bufSeqNo mb) + unat (msgCnt mb) < 18446744073709551616"
  shows "\<exists>c'. doMsgBuf now mb c = (Ok None, c') \<and> seqNo c' = seqNo c \<and> ready c' = ready c \<and>
    seqMax c' = seqMax c \<and> nMissed c' = nMissed c \<and> reqLast c' = reqLast c \<and>
    cache_at (cache c') = store_map (cache_at (cache c)) (unat (bufSeqNo mb)) res"
proof -
  let ?s = "bufSeqNo mb"
  have "unat (?s + ucast (msgCnt mb)) = unat ?s + unat (msgCnt mb)"
    using assms(6) by (simp add: unat_word_ariths)
  then have "\<not> ?s + ucast (msgCnt mb) < seqNo c" using assms(5) by (simp add: word_less_nat_alt)
  moreover have "res \<noteq> []" using assms(2,4) by (auto simp: is_data_def unat_eq_0)
  moreover have "cache_ok (cache c)" using assms(1) by (simp add: client_ok_def)
  ultimately show ?thesis
    using storeCache_effect [of c ?s res] assms(4,5,6) front_data [OF assms(2-4), of now c]
    by (auto simp: doMsgBuf_def Let_def)
qed

theorem gap_packet_never_requests_witness:
  "\<exists>c'. doMsgBuf 0 \<lparr>bufSeqNo = 3, msgCnt = 1, dataBuf = [0, 1, 7]\<rparr>
      (zero_client\<lparr>cache := Init zero_cache, seqNo := 1\<rparr>) = (Ok None, c') \<and> seqMax c' = 0 \<and>
    cache_at (cache c') 3 = Some \<lparr>Data = [7]\<rparr>"
proof -
  have "unpack \<lparr>bufSeqNo = 3, msgCnt = 1, dataBuf = [0, 1, 7]\<rparr> = Ok [\<lparr>Data = [7]\<rparr>]" by code_simp
  moreover have "client_ok (zero_client\<lparr>cache := Init zero_cache, seqNo := 1\<rparr>)"
    using Init_zero_ok by (simp add: client_ok_def robin_ok_def)
  ultimately show ?thesis
    using gap_packet_never_requests [of "zero_client\<lparr>cache := Init zero_cache, seqNo := 1\<rparr>"
        "\<lparr>bufSeqNo = 3, msgCnt = 1, dataBuf = [0, 1, 7]\<rparr>" "[\<lparr>Data = [7]\<rparr>]" 0]
    by (auto simp: is_data_def store_map_def)
qed

text \<open>
  One request server only: once a connection for requests is up, every request of the
  request loop, under every schedule, goes to the server it was dialled to, whatever the
  round-robin index says.
\<close>

theorem requests_stick_to_first_server:
  assumes "connReq c = Some a" "requestLoop dial es c = Ok (out, c')"
  shows "connReq c' = Some a \<and> (\<forall>p \<in> set out. fst p = a)"
  using requestLoop_connected [OF assms(2,1)] .

definition demo_addrs :: "UDPAddr list" where
  "demo_addrs = [\<lparr>IP = [10, 0, 0, 1], Port = 7\<rparr>, \<lparr>IP = [10, 0, 0, 2], Port = 7\<rparr>]"

definition demo_robin :: Client where
  "demo_robin = zero_client\<lparr>seqNo := 5, seqMax := 9, Running := True, reqSrv := demo_addrs,
     connReq := Some (demo_addrs ! 0)\<rparr>"

theorem requests_stick_to_first_server_witness:
  "\<exists>out c'. requestLoop (\<lambda>a. True) [(20000000, Tick), (40000000, Tick)] demo_robin = Ok (out, c') \<and>
    length out = 2 \<and> robinN c' = 0 \<and> (\<forall>p \<in> set out. fst p = demo_addrs ! 0)"
proof -
  have "map_outcome (\<lambda>(out, c'). (length out, robinN c'))
      (requestLoop (\<lambda>a. True) [(20000000, Tick), (40000000, Tick)] demo_robin) = Ok (2, 0)"
    by code_simp
  then obtain out c' where
    r: "requestLoop (\<lambda>a. True) [(20000000, Tick), (40000000, Tick)] demo_robin = Ok (out, c')"
      "length out = 2" "robinN c' = 0"
    by (cases "requestLoop (\<lambda>a. True) [(20000000, Tick), (40000000, Tick)] demo_robin") auto
  have "connReq demo_robin = Some (demo_addrs ! 0)" by (simp add: demo_robin_def)
  from requests_stick_to_first_server [OF this r(1)] r show ?thesis by blast
qed

end
