(* ===== verification/Recovery.thy ===== *)
theory Recovery
  imports Retransmission Client_Live Handlers
begin

section \<open>Recovery of lost messages\<close>

text \<open>
  How gaps are closed. In a round of recovery the ticker of \<open>requestLoop\<close> fires, the client sends
  a request for what it misses, and datagrams come in on the connection of the group, one after
  the other: each goes through a round of \<open>doMsgLoop\<close> (so through the checks of \<open>gotBuff\<close>) and
  then through \<open>requestLoop\<close>. What arrives after a request \<open>b\<close> is an argument, \<open>traffic b\<close>: any
  mixture of live packets, heartbeats, repetitions, foreign and malformed datagrams. The one
  hypothesis on it, \<open>answered_on_group\<close>, is that the packets the client admits among them
  contain the messages the request asked for, split as the server likes and in any order.

  The client reads the connection of the group only. It never reads \<open>connReq\<close>, the connection it
  sends requests on; so an answer that is sent back to that socket, as the MoldUDP64
  specification has it, is not part of \<open>traffic\<close> and closes no gap.
\<close>

subsection \<open>Rounds\<close>









subsection \<open>What a buffer leaves alone\<close>

definition steady :: "Client \<Rightarrow> Client \<Rightarrow> bool" where
  "steady c c' \<longleftrightarrow> session c' = session c \<and> reqSrv c' = reqSrv c \<and> seqMax c \<le> seqMax c' \<and> ch c' = ch c"

lemma steady_refl [simp]: "steady c c"
  by (simp add: steady_def)













subsection \<open>A round closes the gap it asks for\<close>











subsection \<open>Property\<close>





end
