(* ===== verification/Raw_UDP.thy ===== *)
theory Raw_UDP
  imports Mold_Prelude
begin

section \<open>Raw UDP frames and the packet filter (socket.go, rsocket.go)\<close>

text \<open>
  The frames the ring-buffer interface sends and receives: \<open>buildRawUDP\<close> and its parts write
  the Ethernet type, the IPv4 and the UDP header in front of a payload; the header checksum is
  computed by a third-party package and is an argument. The classic BPF program of rsocket.go
  is a table of instructions that \<open>setBPF\<close> patches with the port; \<open>bpf_run\<close> gives the
  instructions of the table their documented meaning. The theorems say which frames the filter
  lets through, that they include exactly the built frames of the port, and that sender and
  receiver of a group agree on its hardware address.
\<close>

subsection \<open>Headers\<close>

text \<open>
  The structs \<open>ipHeader\<close> and \<open>udpHeader\<close> are laid over the buffer. Their 16-bit fields are
  stored in network order by \<open>htons\<close> of the low 16 bits of the value; the addresses are
  copied as far as the source slice reaches.
\<close>

definition htons_bytes :: "int \<Rightarrow> byte list" where
  "htons_bytes v = PutUint16 (of_int v)"

definition buildIP :: "byte list \<Rightarrow> int \<Rightarrow> byte list \<Rightarrow> byte list \<Rightarrow> byte list outcome" where
  "buildIP buff udpLen src dst =
     (if buff = [] then Panic IndexOutOfRange
      else if length buff < 20 then Panic UnsafeAccess
      else
        let b1 = buff[0 := 0x45, 1 := 0];
            b2 = put_slice b1 2 4 (htons_bytes (udpLen + 28));
            b3 = put_slice b2 4 6 [0, 0];
            b4 = put_slice b3 6 8 (htons_bytes 0x4000);
            b5 = b4[8 := 2, 9 := 0x11];
            b6 = put_slice b5 10 12 [0, 0];
            b7 = put_slice b6 12 16 src;
            b8 = put_slice b7 16 20 dst
        in Ok b8)"

definition buildUDP :: "byte list \<Rightarrow> int \<Rightarrow> int \<Rightarrow> byte list outcome" where
  "buildUDP buff dstPort dataLen =
     (if buff = [] then Panic IndexOutOfRange
      else if length buff < 8 then Panic UnsafeAccess
      else
        let b1 = put_slice buff 0 2 (htons_bytes (dstPort + 1));
            b2 = put_slice b1 2 4 (htons_bytes dstPort);
            b3 = put_slice b2 4 6 (htons_bytes (dataLen + 8));
            b4 = put_slice b3 6 8 [0, 0]
        in Ok b4)"

text \<open>
  \<open>cks\<close> is \<open>IPv4_P.CalculateChecksum\<close>. A write through \<open>buff[n:]\<close> is a write into \<open>buff\<close>
  from \<open>n\<close> on.
\<close>

definition at_offset :: "nat \<Rightarrow> (byte list \<Rightarrow> byte list outcome) \<Rightarrow> byte list \<Rightarrow> byte list outcome" where
  "at_offset n f buff =
     (if length buff < n then Panic SliceOutOfRange
      else bind_outcome (f (drop n buff)) (\<lambda>b. Ok (take n buff @ b)))"

definition buildRawUDP ::
  "(byte list \<Rightarrow> u16) \<Rightarrow> byte list \<Rightarrow> int \<Rightarrow> int \<Rightarrow> byte list \<Rightarrow> byte list \<Rightarrow> byte list outcome" where
  "buildRawUDP cks buff udpLen port src dst =
     (if length buff \<le> 13 then Panic IndexOutOfRange
      else
        let b1 = buff[12 := 8, 13 := 0]
        in bind_outcome (at_offset 14 (\<lambda>b. buildIP b udpLen src dst) b1) (\<lambda>b2.
             let ckSum = cks (drop 14 b2);
                 b3 = b2[24 := ucast (drop_bit 8 ckSum), 25 := ucast (ckSum AND 0xff)]
             in at_offset 34 (\<lambda>b. buildUDP b port udpLen) b3))"

subsection \<open>Hardware addresses of groups\<close>

text \<open>\<open>ip4\<close> is \<open>adr.To4()\<close>, nil (empty) when the address is not IPv4.\<close>

definition GetMulticastHWAddr :: "byte list \<Rightarrow> byte list" where
  "GetMulticastHWAddr ip4 =
     (if ip4 = [] then [] else [1, 0, 0x5e, ip4 ! 1 AND 0x7f, ip4 ! 2, ip4 ! 3])"

text \<open>The address the C function \<open>setPacketMultiCast\<close> puts into the membership request.\<close>

definition setPacketMultiCast :: "byte list \<Rightarrow> byte list" where
  "setPacketMultiCast ipAddr = [1, 0, 0x5e, ipAddr ! 1 AND 0x7f, ipAddr ! 2, ipAddr ! 3]"

subsection \<open>The packet filter\<close>

record sock_filter =
  code :: u16
  jt :: nat
  jf :: nat
  fk :: u32

definition insn :: "u16 \<Rightarrow> nat \<Rightarrow> nat \<Rightarrow> u32 \<Rightarrow> sock_filter" where
  "insn c t f k = \<lparr>code = c, jt = t, jf = f, fk = k\<rparr>"

definition filter_table :: "sock_filter list" where
  "filter_table =
    [insn 0x28 0 0 0x0000000c,
     insn 0x15 0 4 0x000086dd,
     insn 0x30 0 0 0x00000014,
     insn 0x15 0 11 0x00000011,
     insn 0x28 0 0 0x00000038,
     insn 0x15 8 9 0x000016e2,
     insn 0x15 0 8 0x00000800,
     insn 0x30 0 0 0x00000017,
     insn 0x15 0 6 0x00000011,
     insn 0x28 0 0 0x00000014,
     insn 0x45 4 0 0x00001fff,
     insn 0xb1 0 0 0x0000000e,
     insn 0x48 0 0 0x00000010,
     insn 0x15 0 1 0x000016e2,
     insn 0x6 0 0 0x00040000,
     insn 0x6 0 0 0x00000000]"

text \<open>
  \<open>setBPF\<close> on the global table; \<open>attach\<close> is the answer of \<open>setsockopt\<close> with
  \<open>SO_ATTACH_FILTER\<close>. Both the error and the table it leaves are returned.
\<close>

definition setBPF ::
  "(sock_filter list \<Rightarrow> go_error option) \<Rightarrow> int \<Rightarrow> sock_filter list \<Rightarrow> go_error option \<times> sock_filter list" where
  "setBPF attach port flt =
     (let flt1 = (if uint (fk (flt ! 5)) = port \<and> uint (fk (flt ! 13)) = port then flt
                  else flt[5 := (flt ! 5)\<lparr>fk := of_int port\<rparr>, 13 := (flt ! 13)\<lparr>fk := of_int port\<rparr>])
      in (attach flt1, flt1))"

text \<open>Reading a frame at an offset.\<close>

definition byte_at :: "byte list \<Rightarrow> nat \<Rightarrow> byte option" where
  "byte_at p k = (if k < length p then Some (p ! k) else None)"

definition half_at :: "byte list \<Rightarrow> nat \<Rightarrow> u16 option" where
  "half_at p k = (if k + 2 \<le> length p then Some (Uint16 (go_slice p k (k + 2))) else None)"

text \<open>
  The instructions the table uses: load half word or byte at an absolute offset, load half
  word at \<open>X + k\<close>, load four times the low nibble of a byte into \<open>X\<close>, jump if equal or if a
  bit is set (forward by \<open>jt\<close> or \<open>jf\<close>), return. A load outside the frame ends the program
  with 0. The argument is the program from the current instruction on: all jumps go forward.
\<close>

function bpf_run :: "sock_filter list \<Rightarrow> byte list \<Rightarrow> u32 \<Rightarrow> u32 \<Rightarrow> u32" where
  "bpf_run [] p a x = 0"
| "bpf_run (i # is) p a x =
     (if code i = 0x28 then
        (case half_at p (unat (fk i)) of None \<Rightarrow> 0 | Some h \<Rightarrow> bpf_run is p (ucast h) x)
      else if code i = 0x30 then
        (case byte_at p (unat (fk i)) of None \<Rightarrow> 0 | Some b \<Rightarrow> bpf_run is p (ucast b) x)
      else if code i = 0x48 then
        (case half_at p (unat x + unat (fk i)) of None \<Rightarrow> 0 | Some h \<Rightarrow> bpf_run is p (ucast h) x)
      else if code i = 0xb1 then
        (case byte_at p (unat (fk i)) of None \<Rightarrow> 0
         | Some b \<Rightarrow> bpf_run is p a (4 * (ucast b AND 0xf)))
      else if code i = 0x15 then
        bpf_run (drop (if a = fk i then jt i else jf i) is) p a x
      else if code i = 0x45 then
        bpf_run (drop (if a AND fk i \<noteq> 0 then jt i else jf i) is) p a x
      else if code i = 0x6 then fk i
      else 0)"
  by pat_completeness auto
termination
  by (relation "measure (\<lambda>(is, p, a, x). length is)") auto

declare bpf_run.simps [simp del]

subsection \<open>Layout of a frame\<close>

text \<open>The headers as byte lists; \<open>ck\<close> is the checksum field.\<close>

definition ip_bytes :: "int \<Rightarrow> u16 \<Rightarrow> byte list \<Rightarrow> byte list \<Rightarrow> byte list" where
  "ip_bytes udpLen ck src dst =
     [0x45, 0] @ htons_bytes (udpLen + 28) @ [0, 0, 0x40, 0, 2, 0x11] @ PutUint16 ck @ src @ dst"

definition udp_bytes :: "int \<Rightarrow> int \<Rightarrow> byte list" where
  "udp_bytes port udpLen = htons_bytes (port + 1) @ htons_bytes port @ htons_bytes (udpLen + 8) @ [0, 0]"

lemma length_htons [simp]: "length (htons_bytes v) = 2"
  by (simp add: htons_bytes_def)

lemma length_ip_bytes [simp]:
  "length src = 4 \<Longrightarrow> length dst = 4 \<Longrightarrow> length (ip_bytes udpLen ck src dst) = 20"
  by (simp add: ip_bytes_def)

lemma length_udp_bytes [simp]: "length (udp_bytes port udpLen) = 8"
  by (simp add: udp_bytes_def)

text \<open>Filling a buffer from the front: a write right after the part already written.\<close>

lemma put_slice_next:
  assumes "length pre = lo" "length src = hi - lo" "lo \<le> hi" "hi \<le> length buff"
  shows "put_slice (pre @ drop lo buff) lo hi src = (pre @ src) @ drop hi buff"
  using assms by (simp add: put_slice_def go_slice_def go_copy_def)

lemma list_update_next:
  assumes "length pre = n" "n < length buff"
  shows "(pre @ drop n buff)[n := v] = (pre @ [v]) @ drop (Suc n) buff"
  using assms by (simp add: list_update_append Cons_nth_drop_Suc [symmetric])

lemma buildIP_Ok:
  assumes "20 \<le> length buff" "length src = 4" "length dst = 4"
  shows "buildIP buff udpLen src dst = Ok (ip_bytes udpLen 0 src dst @ drop 20 buff)"
proof -
  let ?h1 = "htons_bytes (udpLen + 28)" and ?h2 = "htons_bytes 0x4000"
  have ne: "buff \<noteq> []" using assms(1) by auto
  then have "buff[0 := 0x45, 1 := 0] = [0x45, 0] @ drop 2 buff"
    using list_update_next [of "[]" 0 buff] list_update_next [of "[0x45]" 1 buff] assms(1)
    by (simp add: numeral_2_eq_2)
  moreover have "put_slice ([0x45, 0] @ drop 2 buff) 2 4 ?h1 = ([0x45, 0] @ ?h1) @ drop 4 buff"
    using assms by (intro put_slice_next) auto
  moreover have "put_slice (([0x45, 0] @ ?h1) @ drop 4 buff) 4 6 [0, 0]
      = (([0x45, 0] @ ?h1) @ [0, 0]) @ drop 6 buff"
    using assms by (intro put_slice_next) auto
  moreover have "put_slice ((([0x45, 0] @ ?h1) @ [0, 0]) @ drop 6 buff) 6 8 ?h2
      = ((([0x45, 0] @ ?h1) @ [0, 0]) @ ?h2) @ drop 8 buff"
    using assms by (intro put_slice_next) auto
  moreover define pre where "pre = (([0x45, 0] @ ?h1) @ [0, 0]) @ ?h2"
  moreover have pre: "length pre = 8" by (simp add: pre_def)
  moreover have "(pre @ drop 8 buff)[8 := 2, 9 := 0x11] = (pre @ [2, 0x11]) @ drop 10 buff"
    using list_update_next [of pre 8 buff 2] list_update_next [of "pre @ [2]" 9 buff "0x11"] assms(1) pre
    by (simp add: numeral_eq_Suc)
  moreover have "put_slice ((pre @ [2, 0x11]) @ drop 10 buff) 10 12 [0, 0]
      = ((pre @ [2, 0x11]) @ [0, 0]) @ drop 12 buff"
    using assms pre by (intro put_slice_next) auto
  moreover have "put_slice (((pre @ [2, 0x11]) @ [0, 0]) @ drop 12 buff) 12 16 src
      = (((pre @ [2, 0x11]) @ [0, 0]) @ src) @ drop 16 buff"
    using assms pre by (intro put_slice_next) auto
  moreover have "put_slice ((((pre @ [2, 0x11]) @ [0, 0]) @ src) @ drop 16 buff) 16 20 dst
      = ((((pre @ [2, 0x11]) @ [0, 0]) @ src) @ dst) @ drop 20 buff"
    using assms pre by (intro put_slice_next) auto
  moreover note ne
  moreover have "?h2 = [0x40, 0]" "PutUint16 0 = [0, 0]" by (simp_all add: htons_bytes_def PutUint16_def)
  ultimately show ?thesis using assms(1) by (simp add: buildIP_def Let_def ip_bytes_def)
qed

lemma buildUDP_Ok:
  assumes "8 \<le> length buff"
  shows "buildUDP buff port dataLen = Ok (udp_bytes port dataLen @ drop 8 buff)"
proof -
  let ?a = "htons_bytes (port + 1)" and ?b = "htons_bytes port" and ?c = "htons_bytes (dataLen + 8)"
  have "put_slice buff 0 2 ?a = ?a @ drop 2 buff"
    using put_slice_next [of "[]" 0 ?a 2 buff] assms by simp
  moreover have "put_slice (?a @ drop 2 buff) 2 4 ?b = (?a @ ?b) @ drop 4 buff"
    using assms by (intro put_slice_next) auto
  moreover have "put_slice ((?a @ ?b) @ drop 4 buff) 4 6 ?c = ((?a @ ?b) @ ?c) @ drop 6 buff"
    using assms by (intro put_slice_next) auto
  moreover have "put_slice (((?a @ ?b) @ ?c) @ drop 6 buff) 6 8 [0, 0]
      = (((?a @ ?b) @ ?c) @ [0, 0]) @ drop 8 buff"
    using assms by (intro put_slice_next) auto
  moreover have "buff \<noteq> []" using assms by auto
  ultimately show ?thesis using assms by (simp add: buildUDP_def Let_def udp_bytes_def)
qed

lemma PutUint16_split: "[ucast (drop_bit 8 w), ucast (w AND 0xff)] = PutUint16 w"
proof -
  have "w AND 0xff = take_bit 8 w"
    using take_bit_eq_mask [of 8 w] by (simp add: mask_eq_exp_minus_1)
  moreover have "ucast (take_bit 8 w) = (ucast w :: byte)"
    by (rule bit_word_eqI) (auto simp: bit_simps)
  ultimately show ?thesis by (simp add: PutUint16_def)
qed

lemma ip_bytes_checksum:
  assumes "length src = 4" "length dst = 4"
  shows "(ip_bytes udpLen c0 src dst)[10 := x, 11 := y] =
    [0x45, 0] @ htons_bytes (udpLen + 28) @ [0, 0, 0x40, 0, 2, 0x11] @ [x, y] @ src @ dst"
  by (simp add: ip_bytes_def htons_bytes_def PutUint16_def)

lemma buildRawUDP_Ok:
  assumes "42 \<le> length buff" "length src = 4" "length dst = 4"
  shows "buildRawUDP cks buff udpLen port src dst =
    Ok (take 12 buff @ [8, 0] @ ip_bytes udpLen (cks (ip_bytes udpLen 0 src dst @ drop 34 buff)) src dst @
        udp_bytes port udpLen @ drop 42 buff)"
proof -
  let ?pre = "take 12 buff @ [8, 0]" and ?ip = "ip_bytes udpLen 0 src dst"
  let ?ck = "cks (?ip @ drop 34 buff)"
  have b1: "buff[12 := 8, 13 := 0] = ?pre @ drop 14 buff"
    using list_update_next [of "take 12 buff" 12 buff 8]
      list_update_next [of "take 12 buff @ [8]" 13 buff 0] assms(1)
    by (simp add: numeral_eq_Suc)
  have ip: "at_offset 14 (\<lambda>b. buildIP b udpLen src dst) (?pre @ drop 14 buff) = Ok (?pre @ ?ip @ drop 34 buff)"
    using assms by (simp add: at_offset_def buildIP_Ok)
  have ck: "(?pre @ ?ip @ drop 34 buff)[24 := ucast (drop_bit 8 ?ck), 25 := ucast (?ck AND 0xff)] =
      ?pre @ ip_bytes udpLen ?ck src dst @ drop 34 buff"
    using assms PutUint16_split [of ?ck]
    by (simp add: list_update_append ip_bytes_checksum) (simp add: ip_bytes_def)
  have udp: "at_offset 34 (\<lambda>b. buildUDP b port udpLen) (?pre @ ip_bytes udpLen ?ck src dst @ drop 34 buff) =
      Ok (?pre @ ip_bytes udpLen ?ck src dst @ udp_bytes port udpLen @ drop 42 buff)"
    using assms by (simp add: at_offset_def buildUDP_Ok)
  show ?thesis
    using assms ip ck udp by (simp add: buildRawUDP_def Let_def b1)
qed

subsection \<open>What the filter lets through\<close>

text \<open>
  The specification: a UDP datagram directly over IPv6, or over IPv4 with fragment offset 0
  (so a first fragment too), for the port, with every field it is recognised by inside the
  frame.
\<close>

definition passes :: "int \<Rightarrow> byte list \<Rightarrow> bool" where
  "passes port p \<longleftrightarrow>
     half_at p 12 = Some 0x86dd \<and> byte_at p 20 = Some 0x11 \<and> half_at p 56 = Some (of_int port) \<or>
     half_at p 12 = Some 0x800 \<and> byte_at p 23 = Some 0x11 \<and>
       (case half_at p 20 of None \<Rightarrow> False | Some f \<Rightarrow> f AND 0x1fff = 0) \<and>
       (case byte_at p 14 of None \<Rightarrow> False
        | Some b \<Rightarrow> half_at p (4 * unat (b AND 0xf) + 16) = Some (of_int port))"

definition filter_for :: "u32 \<Rightarrow> sock_filter list" where
  "filter_for k = filter_table[5 := insn 0x15 8 9 k, 13 := insn 0x15 0 1 k]"

lemma setBPF_table:
  assumes "0 \<le> port" "port < 65536"
  shows "setBPF attach port filter_table = (attach (filter_for (of_int port)), filter_for (of_int port))"
proof -
  have "filter_table = filter_for 0x16e2" by (simp add: filter_table_def filter_for_def)
  moreover have "filter_table ! 5 = insn 0x15 8 9 0x16e2" "filter_table ! 13 = insn 0x15 0 1 0x16e2"
    by (simp_all add: filter_table_def)
  ultimately show ?thesis
    by (auto simp: setBPF_def Let_def filter_for_def insn_def)
qed

lemma bpf_insn:
  "bpf_run (insn 0x28 t f k # is) p a x =
     (case half_at p (unat k) of None \<Rightarrow> 0 | Some h \<Rightarrow> bpf_run is p (ucast h) x)"
  "bpf_run (insn 0x30 t f k # is) p a x =
     (case byte_at p (unat k) of None \<Rightarrow> 0 | Some b \<Rightarrow> bpf_run is p (ucast b) x)"
  "bpf_run (insn 0x48 t f k # is) p a x =
     (case half_at p (unat x + unat k) of None \<Rightarrow> 0 | Some h \<Rightarrow> bpf_run is p (ucast h) x)"
  "bpf_run (insn 0xb1 t f k # is) p a x =
     (case byte_at p (unat k) of None \<Rightarrow> 0 | Some b \<Rightarrow> bpf_run is p a (4 * (ucast b AND 0xf)))"
  "bpf_run (insn 0x15 t f k # is) p a x = bpf_run (drop (if a = k then t else f) is) p a x"
  "bpf_run (insn 0x45 t f k # is) p a x = bpf_run (drop (if a AND k \<noteq> 0 then t else f) is) p a x"
  "bpf_run (insn 0x6 t f k # is) p a x = k"
  by (simp_all add: bpf_run.simps insn_def)

lemma ucast_eq_u32_iff:
  "(ucast (h :: u16) :: u32) = k \<longleftrightarrow> uint h = uint k"
  "(ucast (b :: byte) :: u32) = k \<longleftrightarrow> uint b = uint k"
proof -
  have "uint h < 65536" "uint b < 256"
    using unsigned_less [where w = h and 'a = int] unsigned_less [where w = b and 'a = int] by simp_all
  then show "(ucast h :: u32) = k \<longleftrightarrow> uint h = uint k" "(ucast b :: u32) = k \<longleftrightarrow> uint b = uint k"
    by (simp_all add: word_uint_eq_iff unsigned_ucast_eq take_bit_int_eq_self)
qed

lemma frag_bits: "(ucast (h :: u16) :: u32) AND 0x1fff = 0 \<longleftrightarrow> h AND 0x1fff = 0"
proof -
  have "(ucast h :: u32) AND 0x1fff = ucast (h AND 0x1fff)" by (simp add: unsigned_and_eq)
  then show ?thesis by (simp add: ucast_eq_u32_iff) (simp add: uint_0_iff)
qed

lemma nibble: "unat (4 * (ucast (b :: byte) AND 0xf) :: u32) = 4 * unat (b AND 0xf)"
proof -
  have "(ucast b :: u32) AND 0xf = ucast (b AND 0xf)" by (simp add: unsigned_and_eq)
  moreover have "unat (b AND 0xf) < 256" using unsigned_less [where w = "b AND 0xf"] by simp
  ultimately show ?thesis by (simp add: unat_word_ariths unsigned_ucast_eq take_bit_nat_eq_self)
qed

lemma half_port_iff:
  assumes "0 \<le> port" "port < 65536"
  shows "(ucast (h :: u16) :: u32) = of_int port \<longleftrightarrow> h = of_int port"
proof -
  have "uint (of_int port :: u32) = port" "uint (of_int port :: u16) = port"
    using assms by (simp_all add: uint_word_of_int)
  then show ?thesis unfolding ucast_eq_u32_iff by (simp add: word_uint_eq_iff)
qed

lemma bpf_udp6:
  assumes "0 \<le> port" "port < 65536" "half_at p 12 = Some 0x86dd"
  shows "bpf_run (filter_for (of_int port)) p 0 0 =
    (if byte_at p 20 = Some 0x11 \<and> half_at p 56 = Some (of_int port) then 0x40000 else 0)"
  using assms
  by (auto simp: filter_for_def filter_table_def bpf_insn half_port_iff ucast_eq_u32_iff(2)
      word_uint_eq_iff [where 'a = 8] split: option.split)

lemma bpf_udp4:
  assumes "0 \<le> port" "port < 65536" "half_at p 12 = Some 0x800"
  shows "bpf_run (filter_for (of_int port)) p 0 0 =
    (if byte_at p 23 = Some 0x11 \<and>
        (case half_at p 20 of None \<Rightarrow> False | Some f \<Rightarrow> f AND 0x1fff = 0) \<and>
        (case byte_at p 14 of None \<Rightarrow> False
         | Some b \<Rightarrow> half_at p (4 * unat (b AND 0xf) + 16) = Some (of_int port))
     then 0x40000 else 0)"
  using assms
  by (auto simp: filter_for_def filter_table_def bpf_insn half_port_iff ucast_eq_u32_iff(2) frag_bits nibble
      word_uint_eq_iff [where 'a = 8] split: option.split)

lemma bpf_other:
  assumes "half_at p 12 \<noteq> Some 0x86dd" "half_at p 12 \<noteq> Some 0x800"
  shows "bpf_run (filter_for k) p 0 0 = 0"
  using assms
  by (auto simp: filter_for_def filter_table_def bpf_insn ucast_eq_u32_iff(1)
      word_uint_eq_iff [where 'a = 16] split: option.split)

lemma filter_passes:
  assumes "0 \<le> port" "port < 65536"
  shows "bpf_run (filter_for (of_int port)) p 0 0 = (if passes port p then 0x40000 else 0)"
proof -
  consider "half_at p 12 = Some 0x86dd" | "half_at p 12 = Some 0x800"
    | "half_at p 12 \<noteq> Some 0x86dd" "half_at p 12 \<noteq> Some 0x800" by blast
  then show ?thesis
  proof cases
    case 1
    then show ?thesis using bpf_udp6 [OF assms 1] by (simp add: passes_def)
  next
    case 2
    then show ?thesis using bpf_udp4 [OF assms 2] by (simp add: passes_def)
  next
    case 3
    then show ?thesis using bpf_other [OF 3] by (simp add: passes_def)
  qed
qed

text \<open>The fields of a built frame.\<close>

lemma half_at_append:
  assumes "length a = k" "length b = 2"
  shows "half_at (a @ b @ c) k = Some (Uint16 b)"
  using assms by (simp add: half_at_def go_slice_def)

lemma built_passes:
  assumes "length eth = 12" "length src = 4" "length dst = 4"
  shows "passes port' (eth @ [8, 0] @ ip_bytes udpLen ck src dst @ udp_bytes port udpLen @ rest) \<longleftrightarrow>
    (of_int port :: u16) = of_int port'"
proof -
  let ?p = "eth @ [8, 0] @ ip_bytes udpLen ck src dst @ udp_bytes port udpLen @ rest"
  have "half_at ?p 12 = Some (Uint16 [8, 0])" using assms(1) by (intro half_at_append) simp_all
  then have 12: "half_at ?p 12 = Some 0x800" by (simp add: Uint16_def)
  have 20: "half_at ?p 20 = Some (Uint16 [0x40, 0])"
    using half_at_append [of "eth @ [8, 0, 0x45, 0] @ htons_bytes (udpLen + 28) @ [0, 0]" 20 "[0x40, 0]"] assms(1)
    by (simp add: ip_bytes_def)
  have 36: "half_at ?p 36 = Some (of_int port)"
    using half_at_append [of "eth @ [8, 0] @ ip_bytes udpLen ck src dst @ htons_bytes (port + 1)" 36 "htons_bytes port"] assms
    by (simp add: udp_bytes_def) (simp add: htons_bytes_def)
  have b: "byte_at ?p 14 = Some 0x45" "byte_at ?p 23 = Some 0x11"
    using assms(1) by (simp_all add: byte_at_def ip_bytes_def nth_append htons_bytes_def PutUint16_def)
  have nib: "unat ((0x45 :: byte) AND 0xf) = 5" by simp
  have "Uint16 [0x40, 0] AND 0x1fff = 0" by (simp add: Uint16_def)
  with 12 20 36 b nib show ?thesis by (simp add: passes_def)
qed

subsection \<open>Properties\<close>

text \<open>
  C25. What the receiver's filter lets through, exactly: after \<open>setBPF\<close> with a port of 16 bits,
  the program accepts a frame (returns 0x40000) if and only if it is UDP to that port directly
  over IPv6, or over IPv4 with fragment offset 0 (a whole datagram or the first fragment of
  one), with every field it tests inside the frame; it drops every other frame, however short.
\<close>

theorem filter_accepts_exactly:
  assumes "0 \<le> port" "port < 65536"
  shows "bpf_run (snd (setBPF attach port filter_table)) p 0 0 = (if passes port p then 0x40000 else 0)"
  using assms by (simp add: setBPF_table filter_passes)

text \<open>
  An IPv4 frame for port 5858 with the given flags and fragment offset: whole datagrams and
  first fragments (flag 0x2000) pass, later fragments, other ports and short frames do not.
\<close>

definition demo_ipv4 :: "byte \<Rightarrow> byte \<Rightarrow> byte list" where
  "demo_ipv4 fl off = replicate 12 7 @ [8, 0] @ [0x45, 0, 0, 29, 0, 0, fl, off, 2, 0x11, 0, 0] @
     [10, 0, 0, 1, 224, 0, 0, 1] @ [0x16, 0xe3, 0x16, 0xe2, 0, 9, 0, 0] @ [1]"

theorem filter_accepts_exactly_witness:
  "bpf_run (snd (setBPF (\<lambda>f. None) 5858 filter_table)) (demo_ipv4 0x40 0) 0 0 = 0x40000 \<and>
   bpf_run (snd (setBPF (\<lambda>f. None) 5858 filter_table)) (demo_ipv4 0x20 0) 0 0 = 0x40000 \<and>
   bpf_run (snd (setBPF (\<lambda>f. None) 5858 filter_table)) (demo_ipv4 0 1) 0 0 = 0 \<and>
   bpf_run (snd (setBPF (\<lambda>f. None) 5859 filter_table)) (demo_ipv4 0x40 0) 0 0 = 0 \<and>
   bpf_run (snd (setBPF (\<lambda>f. None) 5858 filter_table)) [1, 2, 3] 0 0 = 0"
proof -
  have "passes 5858 (demo_ipv4 0x40 0)" "passes 5858 (demo_ipv4 0x20 0)" "\<not> passes 5858 (demo_ipv4 0 1)"
    "\<not> passes 5859 (demo_ipv4 0x40 0)" "\<not> passes 5858 [1, 2, 3]"
    by code_simp+
  then show ?thesis
    by (simp add: filter_accepts_exactly)
qed

text \<open>
  What \<open>buildRawUDP\<close> writes: into a frame of at least 42 bytes it puts the Ethernet type,
  an IPv4 header whose length field counts headers and payload and whose checksum field is the
  checksum of the header with a zero checksum, and a UDP header for the port; the hardware
  addresses before and the payload after it are untouched.
\<close>

theorem buildRawUDP_frame:
  assumes "42 \<le> length buff" "length src = 4" "length dst = 4"
  shows "\<exists>b ck. buildRawUDP cks buff udpLen port src dst = Ok b \<and> length b = length buff \<and>
    take 12 b = take 12 buff \<and> take 2 (drop 12 b) = [8, 0] \<and>
    take 20 (drop 14 b) = ip_bytes udpLen ck src dst \<and>
    ck = cks (ip_bytes udpLen 0 src dst @ drop 34 buff) \<and>
    take 8 (drop 34 b) = udp_bytes port udpLen \<and> drop 42 b = drop 42 buff"
  using assms by (simp add: buildRawUDP_Ok)

theorem buildRawUDP_frame_witness:
  "\<exists>b. buildRawUDP (\<lambda>h. 0x1234) (replicate 43 7) 1 5858 [10, 0, 0, 1] [224, 0, 0, 1] = Ok b \<and>
    take 20 (drop 14 b) =
      [0x45, 0, 0, 29, 0, 0, 0x40, 0, 2, 0x11, 0x12, 0x34, 10, 0, 0, 1, 224, 0, 0, 1] \<and>
    drop 42 b = [7]"
proof -
  have "ip_bytes 1 0x1234 [10, 0, 0, 1] [224, 0, 0, 1] =
      [0x45, 0, 0, 29, 0, 0, 0x40, 0, 2, 0x11, 0x12, 0x34, 10, 0, 0, 1, 224, 0, 0, 1]"
    by code_simp
  then show ?thesis
    using buildRawUDP_frame [of "replicate 43 7" "[10, 0, 0, 1]" "[224, 0, 0, 1]" "\<lambda>h. 0x1234" 1 5858]
    by auto
qed

text \<open>
  C26. Sender and receiver agree on ports: a frame built for a port passes the filter set to
  that port and is dropped by the filter of every other port, whatever the payload and whatever
  the third-party checksum.
\<close>

theorem built_frames_pass_own_filter:
  assumes "42 \<le> length buff" "length src = 4" "length dst = 4" "0 \<le> port" "port < 65536"
    "0 \<le> port'" "port' < 65536"
  shows "\<exists>b. buildRawUDP cks buff udpLen port src dst = Ok b \<and>
    bpf_run (snd (setBPF attach port' filter_table)) b 0 0 = (if port = port' then 0x40000 else 0)"
proof -
  have "(of_int port :: u16) = of_int port' \<longleftrightarrow> port = port'"
    using assms(4-7) by (simp add: word_uint_eq_iff uint_word_of_int)
  then show ?thesis
    using assms built_passes [of "take 12 buff" src dst port' udpLen _ port "drop 42 buff"]
    by (simp add: buildRawUDP_Ok setBPF_table filter_passes)
qed

theorem built_frames_pass_own_filter_witness:
  "\<exists>b. buildRawUDP (\<lambda>h. 0) (replicate 60 0) 18 5858 [10, 0, 0, 1] [224, 0, 0, 1] = Ok b \<and>
    bpf_run (snd (setBPF (\<lambda>f. None) 5858 filter_table)) b 0 0 = 0x40000"
  using built_frames_pass_own_filter
    [of "replicate 60 0" "[10, 0, 0, 1]" "[224, 0, 0, 1]" 5858 5858 "\<lambda>h. 0" 18 "\<lambda>f. None"]
  by simp

text \<open>
  The destination address a sender puts into its frames is the group address the receiver
  joins: \<open>GetMulticastHWAddr\<close> and the C function \<open>setPacketMultiCast\<close> compute the same six
  bytes for every IPv4 group, and it is a multicast address whose low 23 bits are those of the
  group.
\<close>

theorem group_address_agrees:
  assumes "length ip4 = 4"
  shows "GetMulticastHWAddr ip4 = setPacketMultiCast ip4 \<and> length (GetMulticastHWAddr ip4) = 6 \<and>
    take 3 (GetMulticastHWAddr ip4) = [1, 0, 0x5e] \<and>
    unat (GetMulticastHWAddr ip4 ! 3) < 128 \<and> drop 4 (GetMulticastHWAddr ip4) = drop 2 ip4"
proof -
  obtain a b c d where ip: "ip4 = [a, b, c, d]"
    using assms by (auto simp: numeral_eq_Suc length_Suc_conv)
  have "b AND 0x7f = take_bit 7 b" using take_bit_eq_mask [of 7 b] by (simp add: mask_eq_exp_minus_1)
  then have "unat (b AND 0x7f) = unat b mod 128"
    by (simp add: take_bit_eq_mod unat_mod_distrib)
  with ip show ?thesis by (simp add: GetMulticastHWAddr_def setPacketMultiCast_def)
qed

theorem group_address_agrees_witness:
  "GetMulticastHWAddr [239, 129, 2, 3] = setPacketMultiCast [239, 129, 2, 3] \<and>
    GetMulticastHWAddr [239, 129, 2, 3] = [1, 0, 0x5e, 1, 2, 3]"
proof -
  have "GetMulticastHWAddr [239, 129, 2, 3] = [1, 0, 0x5e, 1, 2, 3]" by code_simp
  with group_address_agrees [of "[239, 129, 2, 3]"] show ?thesis by simp
qed

end
