(* ===== verification/C_Memory.thy ===== *)
theory C_Memory
  imports Mold_Prelude
begin

section \<open>Fields of C structs in shared memory\<close>

text \<open>
  The ring buffers and the socket options are C structs laid over byte slices with
  \<open>unsafe.Pointer\<close>. A field of \<open>n\<close> bytes at an offset is read by \<open>fld\<close> and written by
  \<open>put_fld\<close> in the byte order of the host, which is little endian on the platforms the
  package is built for. The laws: a field reads back what was written to it, and a write does
  not touch fields beside it.
\<close>

named_theorems mem_simps \<open>reading fields after writes\<close>

fun le_word :: "byte list \<Rightarrow> 'a::len word" where
  "le_word [] = 0"
| "le_word (b # bs) = ucast b OR push_bit 8 (le_word bs)"

fun le_bytes :: "nat \<Rightarrow> 'a::len word \<Rightarrow> byte list" where
  "le_bytes 0 w = []"
| "le_bytes (Suc n) w = ucast w # le_bytes n (drop_bit 8 w)"

definition fld :: "nat \<Rightarrow> nat \<Rightarrow> byte list \<Rightarrow> 'a::len word" where
  "fld n off m = le_word (take n (drop off m))"

definition put_fld :: "nat \<Rightarrow> nat \<Rightarrow> 'a::len word \<Rightarrow> byte list \<Rightarrow> byte list" where
  "put_fld n off w m = take off m @ le_bytes n w @ drop (off + n) m"

lemma zero_le_word [simp]: "le_word (replicate n 0) = 0"
  by (induction n) simp_all

lemma fld_replicate [simp]: "fld n off (replicate k 0) = 0"
  by (simp add: fld_def)

lemma length_le_bytes [simp]: "length (le_bytes n w) = n"
  by (induction n arbitrary: w) auto

lemma le_bytes_take: "m \<le> n \<Longrightarrow> take m (le_bytes n w) = le_bytes m w"
proof (induction m arbitrary: n w)
  case (Suc m)
  then obtain n' where "n = Suc n'" "m \<le> n'" by (cases n) auto
  with Suc.IH show ?case by simp
qed simp

lemma le_bytes_nth: "i < n \<Longrightarrow> le_bytes n w ! i = ucast (drop_bit (8 * i) w)"
proof (induction n arbitrary: i w)
  case (Suc n)
  then show ?case by (cases i) (auto simp: algebra_simps)
qed simp

text \<open>The low bytes of an integer do not depend on the width it is stored with.\<close>

lemma le_bytes_low:
  assumes "8 * n \<le> LENGTH('b)" "8 * n \<le> LENGTH('a)"
  shows "le_bytes n (of_int v :: 'a::len word) = le_bytes n (of_int v :: 'b::len word)"
proof (rule nth_equalityI)
  fix i
  assume "i < length (le_bytes n (of_int v :: 'a word))"
  then have i: "i < n" by simp
  show "le_bytes n (of_int v :: 'a word) ! i = le_bytes n (of_int v :: 'b word) ! i"
    unfolding le_bytes_nth [OF i] using i assms
    by (intro bit_word_eqI) (auto simp: bit_simps)
qed simp

lemma le_word_le_bytes: "le_word (le_bytes n w) = take_bit (8 * n) w"
proof (induction n arbitrary: w)
  case (Suc n)
  have "ucast (ucast w :: byte) OR push_bit 8 (take_bit (8 * n) (drop_bit 8 w)) = take_bit (8 * Suc n) w"
    by (rule bit_word_eqI) (auto simp: bit_simps)
  with Suc show ?case by simp
qed simp

lemma le_word_le_bytes_full: "LENGTH('a::len) \<le> 8 * n \<Longrightarrow> le_word (le_bytes n (w :: 'a word)) = w"
  by (simp add: le_word_le_bytes) (rule bit_word_eqI, auto simp: bit_simps)

lemma length_put_fld [simp]: "off + n \<le> length m \<Longrightarrow> length (put_fld n off w m) = length m"
  by (simp add: put_fld_def)

lemma fld_put_fld [mem_simps]:
  "off + n \<le> length m \<Longrightarrow> LENGTH('a::len) \<le> 8 * n \<Longrightarrow> fld n off (put_fld n off w m) = (w :: 'a word)"
  by (simp add: fld_def put_fld_def le_word_le_bytes_full)

lemma take_drop_front:
  "off + n \<le> k \<Longrightarrow> k \<le> length m \<Longrightarrow> take n (drop off (take k m @ x)) = take n (drop off m)"
  by (simp add: take_drop min_absorb2)

lemma take_drop_put_fld [mem_simps]:
  assumes "off' + n' \<le> length m" "off + n \<le> off' \<or> off' + n' \<le> off"
  shows "take n (drop off (put_fld n' off' w m)) = take n (drop off m)"
proof (cases "off + n \<le> off'")
  case True
  with assms(1) show ?thesis unfolding put_fld_def by (intro take_drop_front) simp_all
next
  case False
  with assms obtain d where "off = off' + n' + d" by (metis le_Suc_ex)
  with assms(1) show ?thesis by (simp add: put_fld_def add.commute add.left_commute)
qed

lemma fld_put_fld_other [mem_simps]:
  "off' + n' \<le> length m \<Longrightarrow> off + n \<le> off' \<or> off' + n' \<le> off \<Longrightarrow>
   fld n off (put_fld n' off' w m) = fld n off m"
  by (simp add: fld_def take_drop_put_fld)

lemma drop_put_fld [mem_simps]:
  "off' + n' \<le> length m \<Longrightarrow> off' + n' \<le> off \<Longrightarrow> drop off (put_fld n' off' w m) = drop off m"
  by (simp add: put_fld_def)

lemma fld_drop: "fld n off (drop k m) = fld n (k + off) m"
  by (simp add: fld_def add.commute)

text \<open>An area of equal slots: slot \<open>i\<close> of \<open>bs\<close> bytes, and the area after slot \<open>i\<close> was replaced.\<close>

definition slot :: "nat \<Rightarrow> 'a list \<Rightarrow> nat \<Rightarrow> 'a list" where
  "slot bs raw i = take bs (drop (i * bs) raw)"

definition put_slot :: "nat \<Rightarrow> 'a list \<Rightarrow> nat \<Rightarrow> 'a list \<Rightarrow> 'a list" where
  "put_slot bs raw i b = take (i * bs) raw @ b @ drop (i * bs + bs) raw"

lemma slot_fits: "i < n \<Longrightarrow> i * bs + bs \<le> n * (bs :: nat)"
  using mult_le_mono1 [of "Suc i" n bs] by (simp add: add.commute)

lemma length_slot: "n * bs \<le> length raw \<Longrightarrow> i < n \<Longrightarrow> length (slot bs raw i) = bs"
  using slot_fits [of i n bs] by (simp add: slot_def)

lemma length_put_slot:
  "n * bs \<le> length raw \<Longrightarrow> i < n \<Longrightarrow> length b = bs \<Longrightarrow> length (put_slot bs raw i b) = length raw"
  using slot_fits [of i n bs] by (simp add: put_slot_def)

lemma slot_put_slot:
  assumes "n * bs \<le> length raw" "i < n" "j < n" "length b = bs"
  shows "slot bs (put_slot bs raw i b) j = (if j = i then b else slot bs raw j)"
proof -
  have i: "i * bs + bs \<le> length raw" using assms(1) slot_fits [OF assms(2), of bs] by simp
  consider "j = i" | "j < i" | "i < j" by linarith
  then show ?thesis
  proof cases
    case 1
    with i assms(4) show ?thesis by (simp add: slot_def put_slot_def)
  next
    case 2
    then have "j * bs + bs \<le> i * bs" by (rule slot_fits)
    with 2 i show ?thesis unfolding slot_def put_slot_def by (simp add: take_drop_front del: drop_append take_append)
  next
    case 3
    then have "i * bs + bs \<le> j * bs" by (rule slot_fits)
    then obtain d where d: "j * bs = i * bs + bs + d" by (metis le_Suc_ex)
    show ?thesis using 3 i assms(4) unfolding slot_def put_slot_def d
      by (simp add: add.commute add.left_commute)
  qed
qed

end
