(* ===== verification/ZSocket_Ring.thy ===== *)
theory ZSocket_Ring
  imports C_Memory
begin

section \<open>The ring buffers of the packet socket (zsocket.go)\<close>

text \<open>
  The transmit side of \<open>ZSocket\<close>: frames of a memory area shared with the kernel, claimed in
  ring order by \<open>getFreeTx\<close>, filled by \<open>CopyToBuffer\<close> and handed to the kernel by
  \<open>FlushFrames\<close>; and the sizes \<open>NewZSocket\<close> computes for the area. The fields of the kernel's
  \<open>tpacket_hdr\<close> that the code reads and writes are fields of the frame record.

  The kernel is an argument: what \<open>Poll\<close> and \<open>Sendto\<close> answer and how they change the status
  of the frames. One goroutine uses the socket at a time, as in the package; a loop that waits
  for the kernel runs over the list of answers it gets and is \<open>None\<close> when it still waits at
  the end of it, and \<open>None\<close> also stands for the loop on the flag \<open>mb\<close> when it is set.
\<close>

subsection \<open>Sizes\<close>

definition TPACKET_ALIGNMENT :: u64 where
  "TPACKET_ALIGNMENT = 16"

definition MINIMUM_FRAME_SIZE :: u64 where
  "MINIMUM_FRAME_SIZE = push_bit 6 TPACKET_ALIGNMENT"

definition MAXIMUM_FRAME_SIZE :: u64 where
  "MAXIMUM_FRAME_SIZE = push_bit 11 TPACKET_ALIGNMENT"

definition framesPerBlock :: u64 where
  "framesPerBlock = 1024"

definition tpAlign :: "u64 \<Rightarrow> u64" where
  "tpAlign x = (x + TPACKET_ALIGNMENT - 1) AND NOT (TPACKET_ALIGNMENT - 1)"

text \<open>
  \<open>for i < ceil { i <<= 1 }\<close>: a shift that reaches 0 would never end, so the loop may not
  return; \<open>None\<close> is that case.
\<close>

partial_function (option) largest_loop :: "u64 \<Rightarrow> u64 \<Rightarrow> u64 option" where
  "largest_loop ceil i = (if i < ceil then largest_loop ceil (push_bit 1 i) else Some i)"

definition calculateLargestFrame :: "u64 \<Rightarrow> u64 option" where
  "calculateLargestFrame ceil = largest_loop ceil MINIMUM_FRAME_SIZE"

record tpacketReq =
  blockSize :: u64
  blockNum :: u64
  frameSize :: u64
  frameNumber :: u64

text \<open>The checks of \<open>NewZSocket\<close> on its arguments, and the ring it asks the kernel for.\<close>

definition check_ring_args :: "u64 \<Rightarrow> u64 \<Rightarrow> unit outcome" where
  "check_ring_args maxFrameSize maxTotalFrames =
     (if maxFrameSize < MINIMUM_FRAME_SIZE \<or> MAXIMUM_FRAME_SIZE < maxFrameSize \<or>
         0 < maxFrameSize AND (maxFrameSize - 1)
      then Err (ErrText ''maxFrameSize'')
      else if maxTotalFrames < 16 \<and> maxTotalFrames mod 8 = 0 then Err (ErrText ''maxTotalFrames'')
      else Ok ())"

definition frame_size_for :: "u64 \<Rightarrow> u64 \<Rightarrow> u64 option" where
  "frame_size_for pageSize maxFrameSize =
     (if maxFrameSize < pageSize then calculateLargestFrame maxFrameSize
      else Some ((maxFrameSize div pageSize) * pageSize))"

definition ring_request :: "u64 \<Rightarrow> bool \<Rightarrow> u64 \<Rightarrow> u64 \<Rightarrow> tpacketReq outcome option" where
  "ring_request pageSize isV3 maxFrameSize maxTotalFrames =
     (if pageSize = 0 then Some (Panic DivideByZero)
      else
        (case frame_size_for pageSize maxFrameSize of
           None \<Rightarrow> None
         | Some fs \<Rightarrow>
             let per = (if isV3 then framesPerBlock else 8);
                 bs = fs * per;
                 bn = maxTotalFrames div per
             in if fs = 0 then Some (Panic DivideByZero)
                else Some (Ok \<lparr>blockSize = bs, blockNum = bn, frameSize = fs,
                               frameNumber = (bs div fs) * bn\<rparr>)))"

subsection \<open>Frames\<close>

text \<open>The status bits of linux/if_packet.h for a frame of the transmit ring.\<close>

definition TP_STATUS_SEND_REQUEST :: u64 where "TP_STATUS_SEND_REQUEST = 1"
definition TP_STATUS_SENDING :: u64 where "TP_STATUS_SENDING = 2"
definition TP_STATUS_WRONG_FORMAT :: u64 where "TP_STATUS_WRONG_FORMAT = 4"

record ringFrame =
  tp_status :: u64
  tp_len :: u32
  tp_snaplen :: u32
  txStart :: "byte list"
  mb :: u32

definition txReady :: "ringFrame \<Rightarrow> bool" where
  "txReady rf \<longleftrightarrow> tp_status rf AND (TP_STATUS_SEND_REQUEST OR TP_STATUS_SENDING) = 0"

definition txWrongFormat :: "ringFrame \<Rightarrow> bool" where
  "txWrongFormat rf \<longleftrightarrow> tp_status rf AND TP_STATUS_WRONG_FORMAT = TP_STATUS_WRONG_FORMAT"

text \<open>Compare-and-swap of \<open>mb\<close> from 0 to 1: whether it succeeded, and the frame after it.\<close>

definition txMBReady :: "ringFrame \<Rightarrow> bool \<times> ringFrame" where
  "txMBReady rf = (if mb rf = 0 then (True, rf\<lparr>mb := 1\<rparr>) else (False, rf))"

definition txSet :: "ringFrame \<Rightarrow> ringFrame" where
  "txSet rf = rf\<lparr>tp_status := TP_STATUS_SEND_REQUEST\<rparr>"

definition txSetMB :: "ringFrame \<Rightarrow> ringFrame" where
  "txSetMB rf = rf\<lparr>mb := 0\<rparr>"

definition setTpLens :: "u16 \<Rightarrow> ringFrame \<Rightarrow> ringFrame" where
  "setTpLens v rf = rf\<lparr>tp_len := ucast v, tp_snaplen := ucast v\<rparr>"

subsection \<open>The socket\<close>

text \<open>
  The fields of \<open>ZSocket\<close> the transmit side uses; the two package-level counters of sent and
  wrong packets belong to it.
\<close>

record ZSocket =
  txEnabled :: bool
  txLossDisabled :: bool
  frameNum :: nat
  txFrameSize :: u16
  txIndex :: nat
  txWritten :: nat
  txWrittenIndex :: int
  txFrames :: "ringFrame list"
  statPolls :: goint
  nPacketSent :: goint
  nPacketWrong :: goint

text \<open>
  The transmit half of the end of \<open>NewZSocket\<close>, for a mapped area \<open>raw\<close>: the header of a
  frame is what the kernel has in its first bytes.
\<close>

definition TX_START :: nat where
  "TX_START = 32"

definition mk_frame :: "byte list \<Rightarrow> ringFrame" where
  "mk_frame raw = \<lparr>tp_status = fld 8 0 raw, tp_len = fld 4 8 raw, tp_snaplen = fld 4 12 raw,
     txStart = drop TX_START raw, mb = 0\<rparr>"

fun tx_slices :: "byte list \<Rightarrow> nat \<Rightarrow> nat \<Rightarrow> ringFrame list outcome" where
  "tx_slices raw fs 0 = Ok []"
| "tx_slices raw fs (Suc n) =
     (if length raw < fs \<or> fs < TX_START then Panic SliceOutOfRange
      else bind_outcome (tx_slices (drop fs raw) fs n) (\<lambda>frs. Ok (mk_frame (take fs raw) # frs)))"

definition new_tx :: "byte list \<Rightarrow> tpacketReq \<Rightarrow> bool \<Rightarrow> ZSocket outcome" where
  "new_tx raw req lossDisabled =
     (let fs = (ucast (frameSize req) :: u16);
          n = nat (sint (ucast (frameNumber req) :: u32))
      in bind_outcome (tx_slices raw (unat fs) n) (\<lambda>frs.
           Ok \<lparr>txEnabled = True, txLossDisabled = lossDisabled, frameNum = n,
               txFrameSize = fs - of_nat TX_START, txIndex = 0, txWritten = 0, txWrittenIndex = -1,
               txFrames = frs, statPolls = 0, nPacketSent = 0, nPacketWrong = 0\<rparr>))"

subsection \<open>The kernel\<close>

text \<open>
  While the code waits or calls, the kernel may change the status of frames: a function from
  the index and the old status to the new one. An answer of \<open>Poll\<close> is an error or a change.
\<close>

type_synonym kernel = "nat \<Rightarrow> u64 \<Rightarrow> u64"

datatype poll_answer = PollErr go_error | PollOk kernel

definition kernel_step :: "kernel \<Rightarrow> ringFrame list \<Rightarrow> ringFrame list" where
  "kernel_step k frs = map (\<lambda>(i, rf). rf\<lparr>tp_status := k i (tp_status rf)\<rparr>) (enumerate 0 frs)"

subsection \<open>Writing frames\<close>

text \<open>The loop \<open>for !tx.txReady() { ... Poll ... }\<close> on frame \<open>i\<close>.\<close>

fun wait_tx :: "poll_answer list \<Rightarrow> nat \<Rightarrow> ZSocket \<Rightarrow> (unit outcome \<times> ZSocket) option" where
  "wait_tx answers i zs =
     (if txReady (txFrames zs ! i) then Some (Ok (), zs)
      else
        (case answers of
           [] \<Rightarrow> None
         | a # rest \<Rightarrow>
             let zs1 = zs\<lparr>statPolls := statPolls zs + 1\<rparr>
             in (case a of
                   PollErr e \<Rightarrow> Some (Err e, zs1)
                 | PollOk k \<Rightarrow> wait_tx rest i (zs1\<lparr>txFrames := kernel_step k (txFrames zs1)\<rparr>))))"

declare wait_tx.simps [simp del]

definition getFreeTx :: "poll_answer list \<Rightarrow> ZSocket \<Rightarrow> (nat outcome \<times> ZSocket) option" where
  "getFreeTx answers zs =
     (if txWritten zs = frameNum zs then Some (Err (ErrText ''the tx ring buffer is full''), zs)
      else
        let i = txIndex zs;
            zs1 = zs\<lparr>txIndex := (i + 1) mod frameNum zs\<rparr>
        in if length (txFrames zs1) \<le> i then Some (Panic IndexOutOfRange, zs1)
           else
             (case wait_tx answers i zs1 of
                None \<Rightarrow> None
              | Some (Err e, zs2) \<Rightarrow> Some (Err e, zs2)
              | Some (Panic p, zs2) \<Rightarrow> Some (Panic p, zs2)
              | Some (Ok u, zs2) \<Rightarrow>
                  (case txMBReady (txFrames zs2 ! i) of
                     (True, rf) \<Rightarrow> Some (Ok i, zs2\<lparr>txFrames := (txFrames zs2)[i := rf]\<rparr>)
                   | (False, rf) \<Rightarrow> None)))"

text \<open>A copy function gets the frame and the data and returns the frame written and a length.\<close>

type_synonym copy_fun = "byte list \<Rightarrow> byte list \<Rightarrow> int \<Rightarrow> (byte list \<times> u16) outcome"

definition copyFx :: copy_fun where
  "copyFx dst src l = Ok (go_copy dst src, of_int l)"

definition CopyToBuffer ::
  "poll_answer list \<Rightarrow> byte list \<Rightarrow> u16 \<Rightarrow> copy_fun \<Rightarrow> ZSocket \<Rightarrow> (nat outcome \<times> ZSocket) option" where
  "CopyToBuffer answers buf l copyf zs =
     (if \<not> txEnabled zs then
        Some (Err (ErrText ''the TX ring is not enabled on this socket''), zs)
      else
        (case getFreeTx answers zs of
           None \<Rightarrow> None
         | Some (Err e, zs1) \<Rightarrow> Some (Err e, zs1)
         | Some (Panic p, zs1) \<Rightarrow> Some (Panic p, zs1)
         | Some (Ok i, zs1) \<Rightarrow>
             (case copyf (txStart (txFrames zs1 ! i)) buf (uint l) of
                Err e \<Rightarrow> Some (Err e, zs1)
              | Panic p \<Rightarrow> Some (Panic p, zs1)
              | Ok (dst, cL) \<Rightarrow>
                  let rf = setTpLens cL ((txFrames zs1 ! i)\<lparr>txStart := dst\<rparr>);
                      zs2 = zs1\<lparr>txFrames := (txFrames zs1)[i := rf]\<rparr>;
                      zs3 = zs2\<lparr>nPacketSent := nPacketSent zs2 + 1\<rparr>;
                      zs4 = zs3\<lparr>txWritten := txWritten zs3 + 1\<rparr>;
                      zs5 = (if txWritten zs4 = 1 then zs4\<lparr>txWrittenIndex := int i\<rparr> else zs4)
                  in Some (Ok i, zs5))))"

definition WriteToBuffer ::
  "poll_answer list \<Rightarrow> byte list \<Rightarrow> u16 \<Rightarrow> ZSocket \<Rightarrow> (nat outcome \<times> ZSocket) option" where
  "WriteToBuffer answers buf l zs =
     (if txFrameSize zs < l then
        Some (Err (ErrText ''the length of the write exceeds the size of the TX frame''), zs)
      else if l = 0 then CopyToBuffer answers buf (of_nat (length buf)) copyFx zs
      else if length buf < unat l then Some (Panic SliceOutOfRange, zs)
      else CopyToBuffer answers (take (unat l) buf) l copyFx zs)"

subsection \<open>Flushing\<close>

text \<open>The two loops over \<open>w\<close> frames from frame \<open>t\<close> on.\<close>

fun set_loop :: "nat \<Rightarrow> nat \<Rightarrow> nat \<Rightarrow> ringFrame list \<Rightarrow> ringFrame list outcome" where
  "set_loop n t 0 frs = Ok frs"
| "set_loop n t (Suc w) frs =
     (if length frs \<le> t then Panic IndexOutOfRange
      else set_loop n ((t + 1) mod n) w (frs[t := txSet (frs ! t)]))"

fun collect_loop ::
  "bool \<Rightarrow> nat \<Rightarrow> nat \<Rightarrow> nat \<Rightarrow> ringFrame list \<Rightarrow> nat \<Rightarrow> nat list \<Rightarrow>
   (ringFrame list \<times> nat \<times> nat list) outcome" where
  "collect_loop loss n t 0 frs flushed errs = Ok (frs, flushed, errs)"
| "collect_loop loss n t (Suc w) frs flushed errs =
     (if length frs \<le> t then Panic IndexOutOfRange
      else
        let bad = loss \<and> txWrongFormat (frs ! t)
        in collect_loop loss n ((t + 1) mod n) w (frs[t := txSetMB (frs ! t)])
             (if bad then flushed else flushed + 1) (if bad then errs @ [t] else errs))"

text \<open>
  \<open>FlushFrames\<close>: \<open>send\<close> is the answer of \<open>Sendto\<close> and \<open>k\<close> what the kernel does to the
  frames meanwhile. The result is the number of frames flushed and the frames in error; the
  socket statistics are not modelled.
\<close>

definition FlushFrames ::
  "go_error option \<Rightarrow> kernel \<Rightarrow> ZSocket \<Rightarrow> (nat \<times> nat list) outcome \<times> ZSocket" where
  "FlushFrames send k zs =
     (if \<not> txEnabled zs then
        (Err (ErrText ''the TX ring is not enabled on this socket, there is nothing to flush''), zs)
      else if txWrittenIndex zs = -1 then (Ok (0, []), zs)
      else
        let index = nat (txWrittenIndex zs);
            zs1 = zs\<lparr>txWrittenIndex := -1\<rparr>;
            written = txWritten zs1;
            zs2 = zs1\<lparr>txWritten := 0\<rparr>
        in (case set_loop (frameNum zs2) index written (txFrames zs2) of
              Panic p \<Rightarrow> (Panic p, zs2)
            | Err e \<Rightarrow> (Err e, zs2)
            | Ok frs1 \<Rightarrow>
                let frs2 = kernel_step k frs1;
                    zs3 = zs2\<lparr>txFrames := frs2\<rparr>
                in (case send of
                      Some e \<Rightarrow> (Err e, zs3)
                    | None \<Rightarrow>
                        (case collect_loop (txLossDisabled zs3) (frameNum zs3) index written frs2 0 [] of
                           Panic p \<Rightarrow> (Panic p, zs3)
                         | Err e \<Rightarrow> (Err e, zs3)
                         | Ok (frs3, flushed, errs) \<Rightarrow>
                             (Ok (flushed, errs),
                              zs3\<lparr>txFrames := frs3,
                                  nPacketWrong := nPacketWrong zs3 + of_nat (length errs)\<rparr>)))))"

definition WrittenPackets :: "ZSocket \<Rightarrow> nat" where
  "WrittenPackets zs = txWritten zs"

end
