(* ===== verification/Ring_Lemmas.thy ===== *)
theory Ring_Lemmas
  imports ZSocket_Ring
begin

section \<open>The transmit ring is a queue\<close>

text \<open>
  The abstraction of the transmit ring: \<open>pending\<close>, the indices of the frames written and not
  yet flushed, in the order of writing. \<open>ring_ok\<close> is the invariant: they are a contiguous
  piece of the ring that ends at \<open>txIndex\<close>, and the flag \<open>mb\<close> is set exactly on them. Against
  it, \<open>CopyToBuffer\<close> appends an index and \<open>FlushFrames\<close> hands exactly the pending frames to the
  kernel and empties the queue.
\<close>

subsection \<open>Pieces of a ring\<close>

fun ring_seq :: "nat \<Rightarrow> nat \<Rightarrow> nat \<Rightarrow> nat list" where
  "ring_seq n t 0 = []"
| "ring_seq n t (Suc w) = t # ring_seq n ((t + 1) mod n) w"

lemma length_ring_seq [simp]: "length (ring_seq n t w) = w"
  by (induction w arbitrary: t) auto

lemma ring_seq_map: "t < n \<Longrightarrow> ring_seq n t w = map (\<lambda>k. (t + k) mod n) [0..<w]"
proof (induction w arbitrary: t)
  case (Suc w)
  have "ring_seq n ((t + 1) mod n) w = map (\<lambda>k. ((t + 1) mod n + k) mod n) [0..<w]"
    using Suc.prems by (intro Suc.IH) simp
  also have "\<dots> = map (\<lambda>k. (t + k) mod n) (map Suc [0..<w])"
    by (simp add: mod_add_left_eq)
  finally show ?case using Suc.prems by (simp add: map_Suc_upt upt_conv_Cons del: upt_Suc)
qed simp

lemma ring_seq_append: "t < n \<Longrightarrow> ring_seq n t (Suc w) = ring_seq n t w @ [(t + w) mod n]"
  by (subst (1 2) ring_seq_map) simp_all

lemma ring_seq_less: "t < n \<Longrightarrow> i \<in> set (ring_seq n t w) \<Longrightarrow> i < n"
  by (auto simp: ring_seq_map)

lemma mod_apart:
  assumes "j < k" "k < n"
  shows "(t + j) mod n \<noteq> (t + k) mod (n :: nat)"
proof
  assume "(t + j) mod n = (t + k) mod n"
  then have "n dvd (t + k) - (t + j)" using assms by (intro mod_eq_dvd_iff_nat [THEN iffD1]) auto
  then show False using assms by (auto dest: dvd_imp_le)
qed

lemma ring_end_free: "t < n \<Longrightarrow> w < n \<Longrightarrow> (t + w) mod n \<notin> set (ring_seq n t w)"
  using mod_apart [of _ w n t] by (fastforce simp: ring_seq_map)

lemma distinct_ring_seq: "t < n \<Longrightarrow> w \<le> n \<Longrightarrow> distinct (ring_seq n t w)"
proof (induction w)
  case (Suc w)
  then show ?case using ring_end_free [of t n w] by (simp add: ring_seq_append del: ring_seq.simps)
qed simp

subsection \<open>Invariant and abstraction\<close>

definition pending_tx :: "ZSocket \<Rightarrow> nat list" where
  "pending_tx zs = ring_seq (frameNum zs) (nat (txWrittenIndex zs)) (txWritten zs)"

definition marks_ok :: "ZSocket \<Rightarrow> bool" where
  "marks_ok zs \<longleftrightarrow>
     (\<forall>i < frameNum zs. mb (txFrames zs ! i) = (if i \<in> set (pending_tx zs) then 1 else 0))"

definition ring_ok :: "ZSocket \<Rightarrow> bool" where
  "ring_ok zs \<longleftrightarrow>
     length (txFrames zs) = frameNum zs \<and> txIndex zs < frameNum zs \<and> txWritten zs \<le> frameNum zs \<and>
     (if txWritten zs = 0 then txWrittenIndex zs = -1
      else 0 \<le> txWrittenIndex zs \<and> txWrittenIndex zs < int (frameNum zs) \<and>
        (nat (txWrittenIndex zs) + txWritten zs) mod frameNum zs = txIndex zs) \<and>
     marks_ok zs"

lemma pending_less: "ring_ok zs \<Longrightarrow> i \<in> set (pending_tx zs) \<Longrightarrow> i < frameNum zs"
  using ring_seq_less [of "nat (txWrittenIndex zs)" "frameNum zs" i "txWritten zs"]
  by (cases "txWritten zs = 0") (auto simp: ring_ok_def pending_tx_def)

subsection \<open>The kernel only touches statuses\<close>

definition same_frames :: "ringFrame list \<Rightarrow> ringFrame list \<Rightarrow> bool" where
  "same_frames frs frs' \<longleftrightarrow> length frs' = length frs \<and>
     (\<forall>i < length frs. frs' ! i = (frs ! i)\<lparr>tp_status := tp_status (frs' ! i)\<rparr>)"

lemma same_frames_refl [simp]: "same_frames frs frs"
  by (simp add: same_frames_def)

lemma same_frames_trans: "same_frames a b \<Longrightarrow> same_frames b c \<Longrightarrow> same_frames a c"
  unfolding same_frames_def by (metis ringFrame.update_convs(1) ringFrame.surjective)

lemma same_frames_sel:
  assumes "same_frames frs frs'" "i < length frs"
  shows "mb (frs' ! i) = mb (frs ! i)" "txStart (frs' ! i) = txStart (frs ! i)"
    "tp_len (frs' ! i) = tp_len (frs ! i)" "tp_snaplen (frs' ! i) = tp_snaplen (frs ! i)"
  using assms unfolding same_frames_def by (metis ringFrame.select_convs(2-5) ringFrame.surjective ringFrame.update_convs(1))+

lemma kernel_step_nth:
  "i < length frs \<Longrightarrow> kernel_step k frs ! i = (frs ! i)\<lparr>tp_status := k i (tp_status (frs ! i))\<rparr>"
  by (simp add: kernel_step_def nth_enumerate_eq)

lemma length_kernel_step [simp]: "length (kernel_step k frs) = length frs"
  by (simp add: kernel_step_def)

lemma kernel_step_same: "same_frames frs (kernel_step k frs)"
  by (simp add: same_frames_def kernel_step_nth)

subsection \<open>Claiming a frame\<close>

lemma wait_tx_frame:
  assumes "wait_tx as i zs = Some (r, zs')" "i < length (txFrames zs)"
  shows "same_frames (txFrames zs) (txFrames zs') \<and>
    zs' = zs\<lparr>txFrames := txFrames zs', statPolls := statPolls zs'\<rparr> \<and>
    (r = Ok () \<longrightarrow> txReady (txFrames zs' ! i)) \<and> \<not> is_panic r"
  using assms
proof (induction as arbitrary: zs)
  case Nil
  then show ?case by (auto simp: wait_tx.simps [of "[]"] split: if_splits)
next
  case (Cons a as)
  show ?case
  proof (cases "txReady (txFrames zs ! i)")
    case True
    with Cons.prems show ?thesis by (auto simp: wait_tx.simps [of "a # as"])
  next
    case False
    note eq = Cons.prems(1) [unfolded wait_tx.simps [of "a # as"]]
    show ?thesis
    proof (cases a)
      case (PollErr e)
      with eq False show ?thesis by auto
    next
      case (PollOk k)
      define zs1 where "zs1 = zs\<lparr>statPolls := statPolls zs + 1, txFrames := kernel_step k (txFrames zs)\<rparr>"
      have "wait_tx as i zs1 = Some (r, zs')" using eq False PollOk by (simp add: Let_def zs1_def)
      from Cons.IH [OF this] Cons.prems(2)
      have ih: "same_frames (txFrames zs1) (txFrames zs')"
        "zs' = zs1\<lparr>txFrames := txFrames zs', statPolls := statPolls zs'\<rparr>"
        "r = Ok () \<longrightarrow> txReady (txFrames zs' ! i)" "\<not> is_panic r"
        by (simp_all add: zs1_def)
      have "same_frames (txFrames zs) (txFrames zs')"
        using ih(1) kernel_step_same same_frames_trans by (fastforce simp: zs1_def)
      with ih(2-4) show ?thesis by (simp add: zs1_def)
    qed
  qed
qed

lemma marks_same:
  assumes "marks_ok zs" "same_frames (txFrames zs) frs" "length (txFrames zs) = frameNum zs"
    "frameNum zs' = frameNum zs" "pending_tx zs' = pending_tx zs" "txFrames zs' = frs"
  shows "marks_ok zs'"
  using assms same_frames_sel(1) by (auto simp: marks_ok_def)

lemma ring_pos: "ring_ok zs \<Longrightarrow> 0 < frameNum zs"
  by (auto simp: ring_ok_def)

text \<open>The next frame is free unless the ring is full.\<close>

lemma txIndex_free:
  assumes "ring_ok zs" "txWritten zs \<noteq> frameNum zs"
  shows "mb (txFrames zs ! txIndex zs) = 0" "txIndex zs \<notin> set (pending_tx zs)"
proof -
  show n: "txIndex zs \<notin> set (pending_tx zs)"
  proof (cases "txWritten zs = 0")
    case False
    then have "nat (txWrittenIndex zs) < frameNum zs" "txWritten zs < frameNum zs"
      "(nat (txWrittenIndex zs) + txWritten zs) mod frameNum zs = txIndex zs"
      using assms by (auto simp: ring_ok_def)
    with ring_end_free show ?thesis unfolding pending_tx_def by metis
  qed (simp add: pending_tx_def)
  with assms(1) show "mb (txFrames zs ! txIndex zs) = 0"
    by (auto simp: ring_ok_def marks_ok_def)
qed

lemma getFreeTx_ok:
  assumes ok: "ring_ok zs" and space: "txWritten zs \<noteq> frameNum zs"
    and wait: "wait_tx as (txIndex zs) (zs\<lparr>txIndex := (txIndex zs + 1) mod frameNum zs\<rparr>) = Some (Ok (), zs2)"
  shows "getFreeTx as zs =
      Some (Ok (txIndex zs), zs2\<lparr>txFrames := (txFrames zs2)[txIndex zs := (txFrames zs2 ! txIndex zs)\<lparr>mb := 1\<rparr>]\<rparr>)"
    and "same_frames (txFrames zs) (txFrames zs2)"
    and "zs2 = zs\<lparr>txIndex := (txIndex zs + 1) mod frameNum zs, txFrames := txFrames zs2, statPolls := statPolls zs2\<rparr>"
proof -
  let ?i = "txIndex zs"
  have len: "?i < length (txFrames zs)" using ok by (simp add: ring_ok_def)
  from wait_tx_frame [OF wait] len
  show same: "same_frames (txFrames zs) (txFrames zs2)"
    and "zs2 = zs\<lparr>txIndex := (?i + 1) mod frameNum zs, txFrames := txFrames zs2, statPolls := statPolls zs2\<rparr>"
    by simp_all
  have "mb (txFrames zs2 ! ?i) = 0"
    using same_frames_sel(1) [OF same len] txIndex_free(1) [OF ok space] by simp
  with wait space len show "getFreeTx as zs =
      Some (Ok ?i, zs2\<lparr>txFrames := (txFrames zs2)[?i := (txFrames zs2 ! ?i)\<lparr>mb := 1\<rparr>]\<rparr>)"
    by (simp add: getFreeTx_def txMBReady_def Let_def)
qed

subsection \<open>Writing a frame\<close>

lemma pending_snoc:
  assumes "ring_ok zs" "txWritten zs \<noteq> frameNum zs"
    and "frameNum zs' = frameNum zs" "txWritten zs' = Suc (txWritten zs)"
    "txWrittenIndex zs' = (if txWritten zs = 0 then int (txIndex zs) else txWrittenIndex zs)"
  shows "pending_tx zs' = pending_tx zs @ [txIndex zs]"
proof (cases "txWritten zs = 0")
  case True
  with assms show ?thesis by (simp add: pending_tx_def)
next
  case False
  then have "nat (txWrittenIndex zs) < frameNum zs"
    "(nat (txWrittenIndex zs) + txWritten zs) mod frameNum zs = txIndex zs"
    using assms(1) by (auto simp: ring_ok_def)
  with False assms(3-5) show ?thesis
    by (simp add: pending_tx_def ring_seq_append del: ring_seq.simps)
qed

lemma mod_Suc_step: "(a + w) mod n = i \<Longrightarrow> (a + Suc w) mod n = Suc i mod (n :: nat)"
  by (metis add_Suc_right mod_Suc_eq)

lemma CopyToBuffer_run:
  assumes ok: "ring_ok zs" and en: "txEnabled zs" and space: "txWritten zs \<noteq> frameNum zs"
    and wait: "wait_tx as (txIndex zs) (zs\<lparr>txIndex := (txIndex zs + 1) mod frameNum zs\<rparr>) = Some (Ok (), zs2)"
    and copyf: "copyf (txStart (txFrames zs ! txIndex zs)) buf (uint l) = Ok (dst, cL)"
  shows "\<exists>zs'. CopyToBuffer as buf l copyf zs = Some (Ok (txIndex zs), zs') \<and> ring_ok zs' \<and>
    pending_tx zs' = pending_tx zs @ [txIndex zs] \<and> txEnabled zs' \<and> frameNum zs' = frameNum zs \<and>
    txWritten zs' = Suc (txWritten zs) \<and> txLossDisabled zs' = txLossDisabled zs \<and>
    txStart (txFrames zs' ! txIndex zs) = dst \<and> tp_len (txFrames zs' ! txIndex zs) = ucast cL \<and>
    (\<forall>j < frameNum zs. j \<noteq> txIndex zs \<longrightarrow> txStart (txFrames zs' ! j) = txStart (txFrames zs ! j) \<and>
       tp_len (txFrames zs' ! j) = tp_len (txFrames zs ! j))"
proof -
  let ?i = "txIndex zs"
  note get = getFreeTx_ok [OF ok space wait]
  have len: "length (txFrames zs) = frameNum zs" "?i < frameNum zs" "length (txFrames zs2) = frameNum zs"
    using ok get(2) by (simp_all add: ring_ok_def same_frames_def)
  note sel = same_frames_sel [OF get(2), unfolded len(1)]
  define rf where "rf = (txFrames zs2 ! ?i)\<lparr>mb := 1, txStart := dst, tp_len := ucast cL, tp_snaplen := ucast cL\<rparr>"
  define zs' where "zs' = zs2\<lparr>txFrames := (txFrames zs2)[?i := rf], nPacketSent := nPacketSent zs2 + 1,
    txWritten := Suc (txWritten zs2),
    txWrittenIndex := (if txWritten zs = 0 then int ?i else txWrittenIndex zs)\<rparr>"
  have w2: "txWritten zs2 = txWritten zs" "frameNum zs2 = frameNum zs" "txEnabled zs2 = txEnabled zs"
    "txIndex zs2 = Suc ?i mod frameNum zs" "txWrittenIndex zs2 = txWrittenIndex zs"
    "txLossDisabled zs2 = txLossDisabled zs"
    using arg_cong [OF get(3), of txWritten] arg_cong [OF get(3), of frameNum]
      arg_cong [OF get(3), of txEnabled] arg_cong [OF get(3), of txIndex]
      arg_cong [OF get(3), of txWrittenIndex] arg_cong [OF get(3), of txLossDisabled]
    by simp_all
  have run: "CopyToBuffer as buf l copyf zs = Some (Ok ?i, zs')"
    using en get(1) copyf sel(2) [OF len(2)] len w2
    by (auto simp: CopyToBuffer_def Let_def setTpLens_def zs'_def rf_def)
  have pend: "pending_tx zs' = pending_tx zs @ [?i]"
    using w2 by (intro pending_snoc [OF ok space]) (simp_all add: zs'_def)
  have "marks_ok zs'"
    using ok sel(1) len w2 unfolding marks_ok_def pend
    by (auto simp: zs'_def nth_list_update rf_def ring_ok_def marks_ok_def)
  moreover have "txWritten zs < frameNum zs" using ok space by (auto simp: ring_ok_def)
  ultimately have "ring_ok zs'"
    using ok len w2 mod_Suc_step [of "nat (txWrittenIndex zs)" "txWritten zs" "frameNum zs" ?i]
    by (auto simp: ring_ok_def zs'_def split: if_splits)
  then show ?thesis
    using run pend w2 en len sel by (auto simp: zs'_def rf_def nth_list_update)
qed

subsection \<open>Flushing\<close>

lemma set_loop_eq:
  assumes "t < n" "length frs = n"
  shows "\<exists>frs'. set_loop n t w frs = Ok frs' \<and> length frs' = n \<and>
    (\<forall>i < n. frs' ! i = (if i \<in> set (ring_seq n t w) then txSet (frs ! i) else frs ! i))"
  using assms
proof (induction w arbitrary: t frs)
  case (Suc w)
  let ?frs = "frs[t := txSet (frs ! t)]"
  obtain frs' where "set_loop n ((t + 1) mod n) w ?frs = Ok frs'" "length frs' = n"
      "\<forall>i < n. frs' ! i = (if i \<in> set (ring_seq n ((t + 1) mod n) w) then txSet (?frs ! i) else ?frs ! i)"
    using Suc.IH [of "(t + 1) mod n" ?frs] Suc.prems by auto
  with Suc.prems show ?case by (auto simp: nth_list_update txSet_def)
qed simp

definition bad_frames :: "bool \<Rightarrow> ringFrame list \<Rightarrow> nat list \<Rightarrow> nat list" where
  "bad_frames loss frs is = filter (\<lambda>i. loss \<and> txWrongFormat (frs ! i)) is"

lemma bad_frames_Cons:
  "bad_frames loss frs (i # is) =
    (if loss \<and> txWrongFormat (frs ! i) then i # bad_frames loss frs is else bad_frames loss frs is)"
  by (simp add: bad_frames_def)

lemma bad_frames_cong:
  "\<forall>i \<in> set is. tp_status (frs' ! i) = tp_status (frs ! i) \<Longrightarrow> bad_frames loss frs' is = bad_frames loss frs is"
  unfolding bad_frames_def by (intro filter_cong) (auto simp: txWrongFormat_def)

lemma collect_loop_eq:
  assumes "t < n" "length frs = n"
  shows "\<exists>frs'. collect_loop loss n t w frs flushed errs =
      Ok (frs', flushed + (w - length (bad_frames loss frs (ring_seq n t w))),
          errs @ bad_frames loss frs (ring_seq n t w)) \<and>
    length frs' = n \<and>
    (\<forall>i < n. frs' ! i = (if i \<in> set (ring_seq n t w) then txSetMB (frs ! i) else frs ! i))"
  using assms
proof (induction w arbitrary: t frs flushed errs)
  case 0
  then show ?case by (simp add: bad_frames_def)
next
  case (Suc w)
  let ?t = "(t + 1) mod n" and ?frs = "frs[t := txSetMB (frs ! t)]"
  let ?bad = "loss \<and> txWrongFormat (frs ! t)"
  have t: "?t < n" "length ?frs = n" using Suc.prems by auto
  have bf: "bad_frames loss ?frs (ring_seq n ?t w) = bad_frames loss frs (ring_seq n ?t w)"
    using Suc.prems by (intro bad_frames_cong) (auto simp: nth_list_update txSetMB_def)
  have le: "length (bad_frames loss frs (ring_seq n ?t w)) \<le> w"
    unfolding bad_frames_def using length_filter_le [of _ "ring_seq n ?t w"] by simp
  obtain frs' where "collect_loop loss n ?t w ?frs (if ?bad then flushed else flushed + 1)
        (if ?bad then errs @ [t] else errs) =
      Ok (frs', (if ?bad then flushed else flushed + 1) + (w - length (bad_frames loss frs (ring_seq n ?t w))),
          (if ?bad then errs @ [t] else errs) @ bad_frames loss frs (ring_seq n ?t w))"
      "length frs' = n"
      "\<forall>i < n. frs' ! i = (if i \<in> set (ring_seq n ?t w) then txSetMB (?frs ! i) else ?frs ! i)"
    using Suc.IH [OF t, of "if ?bad then flushed else flushed + 1" "if ?bad then errs @ [t] else errs"]
    unfolding bf by blast
  with Suc.prems le show ?case
    by (auto simp: Let_def bad_frames_Cons nth_list_update txSetMB_def)
qed

text \<open>
  What the kernel is shown when \<open>FlushFrames\<close> calls \<open>Sendto\<close>: the pending frames are marked
  for sending and nothing else is changed.
\<close>

definition offered :: "ZSocket \<Rightarrow> ringFrame list" where
  "offered zs = map (\<lambda>i. if i \<in> set (pending_tx zs) then txSet (txFrames zs ! i) else txFrames zs ! i)
     [0..<frameNum zs]"

lemma set_loop_offered:
  assumes "ring_ok zs" "txWritten zs \<noteq> 0"
  shows "set_loop (frameNum zs) (nat (txWrittenIndex zs)) (txWritten zs) (txFrames zs) = Ok (offered zs)"
proof -
  have t: "nat (txWrittenIndex zs) < frameNum zs" "length (txFrames zs) = frameNum zs"
    using assms by (auto simp: ring_ok_def)
  obtain frs' where "set_loop (frameNum zs) (nat (txWrittenIndex zs)) (txWritten zs) (txFrames zs) = Ok frs'"
      "length frs' = frameNum zs"
      "\<forall>i < frameNum zs. frs' ! i = (if i \<in> set (pending_tx zs) then txSet (txFrames zs ! i) else txFrames zs ! i)"
    using set_loop_eq [OF t] unfolding pending_tx_def by blast
  moreover have "frs' = offered zs"
    using calculation by (intro nth_equalityI) (simp_all add: offered_def)
  ultimately show ?thesis by simp
qed

lemma length_offered [simp]: "length (offered zs) = frameNum zs"
  by (simp add: offered_def)

lemma mb_offered: "i < frameNum zs \<Longrightarrow> mb (kernel_step k (offered zs) ! i) = mb (txFrames zs ! i)"
  by (simp add: kernel_step_nth offered_def txSet_def)

text \<open>
  A frame after a successful flush: the kernel \<open>k\<close> found a pending frame marked for sending and
  every other one as it was; the flags of the pending frames are cleared. Without pending frames
  the kernel is not called.
\<close>

definition flushed_frame :: "kernel \<Rightarrow> ZSocket \<Rightarrow> nat \<Rightarrow> ringFrame" where
  "flushed_frame k zs i =
     (let rf = txFrames zs ! i
      in if i \<in> set (pending_tx zs) then rf\<lparr>tp_status := k i TP_STATUS_SEND_REQUEST, mb := 0\<rparr>
         else if pending_tx zs = [] then rf
         else rf\<lparr>tp_status := k i (tp_status rf)\<rparr>)"

lemma FlushFrames_run:
  fixes zs :: ZSocket and k :: kernel
  assumes ok: "ring_ok zs" and en: "txEnabled zs"
  defines "bad \<equiv> bad_frames (txLossDisabled zs) (kernel_step k (offered zs)) (pending_tx zs)"
  shows "\<exists>zs'. FlushFrames None k zs = (Ok (txWritten zs - length bad, bad), zs') \<and> ring_ok zs' \<and>
    pending_tx zs' = [] \<and> txEnabled zs' \<and> frameNum zs' = frameNum zs \<and> txIndex zs' = txIndex zs \<and>
    (\<forall>i < frameNum zs. txFrames zs' ! i = flushed_frame k zs i)"
proof (cases "txWritten zs = 0")
  case True
  then have "txWrittenIndex zs = -1" "pending_tx zs = []" using ok by (auto simp: ring_ok_def pending_tx_def)
  with True ok en show ?thesis by (simp add: FlushFrames_def bad_def bad_frames_def flushed_frame_def)
next
  case False
  let ?i = "nat (txWrittenIndex zs)" and ?frs = "kernel_step k (offered zs)"
  have ix: "txWrittenIndex zs \<noteq> -1" and t: "?i < frameNum zs" "length ?frs = frameNum zs"
    using ok False by (auto simp: ring_ok_def)
  obtain frs' where fr: "collect_loop (txLossDisabled zs) (frameNum zs) ?i (txWritten zs) ?frs 0 [] =
        Ok (frs', txWritten zs - length bad, bad)" "length frs' = frameNum zs"
      "\<forall>i < frameNum zs. frs' ! i = (if i \<in> set (pending_tx zs) then txSetMB (?frs ! i) else ?frs ! i)"
    using collect_loop_eq [OF t, of "txLossDisabled zs" "txWritten zs" 0 "[]"]
    unfolding bad_def pending_tx_def by auto
  define zs' where "zs' = zs\<lparr>txWrittenIndex := -1, txWritten := 0, txFrames := frs',
    nPacketWrong := nPacketWrong zs + of_nat (length bad)\<rparr>"
  have run: "FlushFrames None k zs = (Ok (txWritten zs - length bad, bad), zs')"
    using en ix set_loop_offered [OF ok False] fr(1) by (simp add: FlushFrames_def Let_def zs'_def)
  have pend: "pending_tx zs' = []" by (simp add: pending_tx_def zs'_def)
  have "marks_ok zs'"
    using fr(3) mb_offered ok unfolding marks_ok_def pend
    by (auto simp: zs'_def txSetMB_def ring_ok_def marks_ok_def)
  then have "ring_ok zs'" using ok fr(2) by (simp add: ring_ok_def zs'_def)
  moreover have "pending_tx zs \<noteq> []" using False by (cases "txWritten zs") (auto simp: pending_tx_def)
  then have "\<forall>i < frameNum zs. txFrames zs' ! i = flushed_frame k zs i"
    using fr(3) by (simp add: zs'_def flushed_frame_def Let_def kernel_step_nth offered_def txSet_def txSetMB_def)
  ultimately show ?thesis using run pend en by (auto simp: zs'_def)
qed

end
