(* ===== verification/Frame_Queue.thy ===== *)
theory Frame_Queue
  imports Ring_Lemmas
begin

section \<open>The ring as a queue of frames\<close>

text \<open>
  The interface between the ring and the connection that sends through it: \<open>put\<close> appends a
  frame or reports that the ring is full, \<open>flush\<close> hands all pending frames to the kernel. The
  locale states it, the batch loop of \<open>zsockIf.MSend\<close> is proved against it once, and the ring
  of zsocket.go interprets it for every kernel whose \<open>Poll\<close> does not fail and every copy
  function that does not panic.
\<close>

text \<open>
  The loop \<open>for n = 0; n < len(buffs); n++\<close> of \<open>MSend\<close>: an error of the call ends it, and the
  number of buffers written is kept. \<open>None\<close>: still waiting for the kernel.
\<close>

fun msend_loop ::
  "(nat \<Rightarrow> byte list \<Rightarrow> 's \<Rightarrow> ('i outcome \<times> 's) option) \<Rightarrow> nat \<Rightarrow> byte list list \<Rightarrow> 's \<Rightarrow>
   (nat outcome \<times> 's) option" where
  "msend_loop put n [] s = Some (Ok n, s)"
| "msend_loop put n (b # bs) s =
     (case put n b s of
        None \<Rightarrow> None
      | Some (Ok i, s') \<Rightarrow> msend_loop put (n + 1) bs s'
      | Some (Err e, s') \<Rightarrow> Some (Ok n, s')
      | Some (Panic p, s') \<Rightarrow> Some (Panic p, s'))"

locale frame_queue =
  fixes invar :: "'s \<Rightarrow> bool"
    and queue :: "'s \<Rightarrow> 'i list"
    and cap :: "'s \<Rightarrow> nat"
    and put :: "nat \<Rightarrow> byte list \<Rightarrow> 's \<Rightarrow> ('i outcome \<times> 's) option"
    and flush :: "'s \<Rightarrow> (nat \<times> 'i list) outcome \<times> 's"
  assumes put_ok: "invar s \<Longrightarrow> put n b s = Some (Ok i, s') \<Longrightarrow>
      invar s' \<and> queue s' = queue s @ [i] \<and> cap s' = cap s"
    and put_err: "invar s \<Longrightarrow> put n b s = Some (Err e, s') \<Longrightarrow> s' = s \<and> length (queue s) = cap s"
    and put_total: "invar s \<Longrightarrow> put n b s \<noteq> Some (Panic p, s')"
    and flush_law: "invar s \<Longrightarrow> \<exists>k errs s'. flush s = (Ok (k, errs), s') \<and> invar s' \<and> queue s' = [] \<and>
      cap s' = cap s \<and> k + length errs = length (queue s)"
begin

lemma msend_loop_effect:
  assumes "invar s" "msend_loop put n bs s = Some (r, s')"
  shows "\<exists>m. r = Ok (n + m) \<and> m \<le> length bs \<and> invar s' \<and> cap s' = cap s \<and>
    length (queue s') = length (queue s) + m \<and> (m < length bs \<longrightarrow> length (queue s') = cap s)"
  using assms
proof (induction bs arbitrary: n s)
  case Nil
  then show ?case by auto
next
  case (Cons b bs)
  then obtain r1 s1 where p: "put n b s = Some (r1, s1)" by (auto split: option.splits)
  show ?case
  proof (cases r1)
    case (Ok i)
    with p put_ok [OF Cons.prems(1), of n b i s1]
    have s1: "invar s1" "queue s1 = queue s @ [i]" "cap s1 = cap s" by auto
    have "msend_loop put (n + 1) bs s1 = Some (r, s')" using Cons.prems(2) p Ok by simp
    from Cons.IH [OF s1(1) this] s1 obtain m where
      "r = Ok (n + 1 + m)" "m \<le> length bs" "invar s'" "cap s' = cap s"
      "length (queue s') = length (queue s) + 1 + m" "m < length bs \<longrightarrow> length (queue s') = cap s"
      by auto
    then show ?thesis by (intro exI [of _ "Suc m"]) auto
  next
    case (Err e)
    with p put_err [OF Cons.prems(1), of n b e s1] Cons.prems show ?thesis
      by (intro exI [of _ 0]) auto
  next
    case (Panic x)
    with p put_total Cons.prems(1) show ?thesis by blast
  qed
qed

end

subsection \<open>The ring of zsocket.go\<close>

lemma wait_tx_PollOk: "wait_tx (map PollOk ks) i zs = Some (r, zs') \<Longrightarrow> r = Ok ()"
proof (induction ks arbitrary: zs)
  case Nil
  then show ?case by (auto simp: wait_tx.simps [of "[]"] split: if_splits)
next
  case (Cons k ks)
  then show ?case
    by (auto simp: wait_tx.simps [of "PollOk k # map PollOk ks"] Let_def split: if_splits)
qed

definition ring_put ::
  "(nat \<Rightarrow> kernel list) \<Rightarrow> (byte list \<Rightarrow> byte list \<Rightarrow> int \<Rightarrow> byte list \<times> u16) \<Rightarrow> nat \<Rightarrow> byte list \<Rightarrow>
   ZSocket \<Rightarrow> (nat outcome \<times> ZSocket) option" where
  "ring_put ks f n b zs =
     CopyToBuffer (map PollOk (ks n)) b (of_nat (length b)) (\<lambda>d s l. Ok (f d s l)) zs"

lemma ring_put_cases:
  assumes "ring_ok zs" "txEnabled zs" "ring_put ks f n b zs = Some (r, zs')"
  shows "(\<exists>i. r = Ok i \<and> ring_ok zs' \<and> txEnabled zs' \<and> pending_tx zs' = pending_tx zs @ [i] \<and>
      frameNum zs' = frameNum zs \<and>
      (\<forall>j < frameNum zs. txStart (txFrames zs' ! j) =
         (if j = i then fst (f (txStart (txFrames zs ! j)) b (uint (of_nat (length b) :: u16)))
          else txStart (txFrames zs ! j)))) \<or>
    (\<exists>e. r = Err e \<and> zs' = zs \<and> txWritten zs = frameNum zs)"
proof (cases "txWritten zs = frameNum zs")
  case True
  with assms show ?thesis by (auto simp: ring_put_def CopyToBuffer_def getFreeTx_def)
next
  case False
  let ?z = "zs\<lparr>txIndex := (txIndex zs + 1) mod frameNum zs\<rparr>"
  have len: "\<not> length (txFrames zs) \<le> txIndex zs" using assms(1) by (simp add: ring_ok_def)
  obtain zs2 where w: "wait_tx (map PollOk (ks n)) (txIndex zs) ?z = Some (Ok (), zs2)"
    using assms(2,3) False len wait_tx_PollOk [of "ks n" "txIndex zs" ?z]
    by (fastforce simp: ring_put_def CopyToBuffer_def getFreeTx_def Let_def split: option.splits)
  obtain d cL where "f (txStart (txFrames zs ! txIndex zs)) b (uint (of_nat (length b) :: u16)) = (d, cL)"
    by fastforce
  then show ?thesis
    using CopyToBuffer_run [OF assms(1,2) False w, of "\<lambda>d s l. Ok (f d s l)" b "of_nat (length b)" d cL] assms(3)
    by (auto simp: ring_put_def)
qed

lemma length_pending_tx [simp]: "length (pending_tx zs) = txWritten zs"
  by (simp add: pending_tx_def)

interpretation ring: frame_queue "\<lambda>zs. ring_ok zs \<and> txEnabled zs" pending_tx frameNum
  "ring_put ks f" "FlushFrames None k"
  for ks f k
proof unfold_locales
  fix zs assume zs: "ring_ok zs \<and> txEnabled zs"
  show "\<exists>n errs zs'. FlushFrames None k zs = (Ok (n, errs), zs') \<and> (ring_ok zs' \<and> txEnabled zs') \<and>
      pending_tx zs' = [] \<and> frameNum zs' = frameNum zs \<and> n + length errs = length (pending_tx zs)"
  proof -
    let ?bad = "bad_frames (txLossDisabled zs) (kernel_step k (offered zs)) (pending_tx zs)"
    have "length ?bad \<le> txWritten zs"
      using length_filter_le [of _ "pending_tx zs"] by (simp add: bad_frames_def)
    with FlushFrames_run [of zs k] zs show ?thesis by fastforce
  qed
qed (use ring_put_cases in fastforce)+

end
