(* ===== verification/Mcast_If.thy ===== *)
theory Mcast_If
  imports Client_Model Raw_UDP Frame_Queue
begin

section \<open>Multicast connections (mcast.go, sockif*.go, zsockif.go)\<close>

text \<open>
  The three implementations of the interface \<open>McastConn\<close>: over the package net (\<open>netIf\<close>),
  over a datagram socket with batched system calls (\<open>sockIf\<close>), over the ring buffers of a
  packet socket (\<open>zsockIf\<close>), and the registry \<open>NewIf\<close> chooses from. Each is a record of its
  fields and one definition per method; what the operating system and the standard library
  answer to the calls a method makes is an argument. Calls that only log or tune the socket do
  not show. The locale \<open>mcast_conn\<close> is the contract of the interface for opening and closing.
\<close>

subsection \<open>The interface\<close>

definition HasMmsg :: int where "HasMmsg = 1"
definition HasRingBuffer :: int where "HasRingBuffer = 2"

text \<open>
  The contract, for connections that are \<open>valid\<close>: what opening and closing do on a connection
  that is open and on one that is not, and the direction an open connection is used in.
\<close>

locale mcast_conn =
  fixes valid :: "'s \<Rightarrow> bool"
    and opened :: "'s \<Rightarrow> bool"
    and reading :: "'s \<Rightarrow> bool"
    and close_op :: "'s \<Rightarrow> unit outcome \<times> 's"
    and open_op :: "'s \<Rightarrow> unit outcome \<times> 's"
    and open_send_op :: "'s \<Rightarrow> unit outcome \<times> 's"
  assumes close_closed: "\<not> opened s \<Longrightarrow> close_op s = (Err ErrClosed, s)"
    and close_opened: "opened s \<Longrightarrow> \<not> opened (snd (close_op s))"
    and open_opened: "opened s \<Longrightarrow> open_op s = (Err ErrOpened, s)"
    and send_opened: "opened s \<Longrightarrow> open_send_op s = (Err ErrOpened, s)"
    and open_ok: "valid s \<Longrightarrow> \<not> opened s \<Longrightarrow> open_op s = (Ok (), s') \<Longrightarrow> opened s' \<and> reading s'"
    and send_ok: "valid s \<Longrightarrow> \<not> opened s \<Longrightarrow> open_send_op s = (Ok (), s') \<Longrightarrow> opened s' \<and> \<not> reading s'"
begin

lemma close_closes: "\<not> opened (snd (close_op s))"
  using close_closed close_opened by (cases "opened s") auto

lemma close_twice: "close_op (snd (close_op s)) = (Err ErrClosed, snd (close_op s))"
  using close_closes close_closed by blast

lemma open_fresh:
  "open_op s = (Ok (), s') \<Longrightarrow> \<not> opened s" "open_send_op s = (Ok (), s') \<Longrightarrow> \<not> opened s"
  using open_opened [of s] send_opened [of s] by auto

lemma open_twice:
  assumes "valid s" "open_op s = (Ok (), s')"
  shows "open_op s' = (Err ErrOpened, s') \<and> open_send_op s' = (Err ErrOpened, s') \<and> reading s'"
  using open_ok [OF assms(1) open_fresh(1) [OF assms(2)] assms(2)] open_opened send_opened by blast

lemma open_send_twice:
  assumes "valid s" "open_send_op s = (Ok (), s')"
  shows "open_op s' = (Err ErrOpened, s') \<and> open_send_op s' = (Err ErrOpened, s') \<and> \<not> reading s'"
  using send_ok [OF assms(1) open_fresh(2) [OF assms(2)] assms(2)] open_opened send_opened by blast

end

subsection \<open>Over the package net\<close>

record netIf =
  net_bRead :: bool
  net_conn :: "nat option"
  net_adr :: UDPAddr

definition newNetIf :: netIf where
  "newNetIf = \<lparr>net_bRead = False, net_conn = None, net_adr = \<lparr>IP = [], Port = 0\<rparr>\<rparr>"

definition netIf_Enabled :: "int \<Rightarrow> bool" where
  "netIf_Enabled opts = False"

definition netIf_Close :: "(nat \<Rightarrow> unit outcome) \<Rightarrow> netIf \<Rightarrow> unit outcome \<times> netIf" where
  "netIf_Close close c =
     (case net_conn c of
        None \<Rightarrow> (Err ErrClosed, c)
      | Some h \<Rightarrow> (close h, c\<lparr>net_conn := None\<rparr>))"

text \<open>\<open>listen\<close> is \<open>net.ListenUDP\<close> on all addresses and a port: a connection or an error.\<close>

definition netIf_Open ::
  "(int \<Rightarrow> go_error + nat) \<Rightarrow> byte list \<Rightarrow> int \<Rightarrow> netIf \<Rightarrow> unit outcome \<times> netIf" where
  "netIf_Open listen ip port c =
     (if net_conn c \<noteq> None then (Err ErrOpened, c)
      else
        (case listen port of
           Inl e \<Rightarrow> (Err e, c\<lparr>net_conn := None\<rparr>)
         | Inr h \<Rightarrow> (Ok (), c\<lparr>net_conn := Some h, net_bRead := True, net_adr := \<lparr>IP = ip, Port = port\<rparr>\<rparr>)))"

definition netIf_OpenSend ::
  "(int \<Rightarrow> go_error + nat) \<Rightarrow> byte list \<Rightarrow> int \<Rightarrow> bool \<Rightarrow> netIf \<Rightarrow> unit outcome \<times> netIf" where
  "netIf_OpenSend listen ip port bLoop c =
     (if net_conn c \<noteq> None then (Err ErrOpened, c)
      else
        (case listen (if bLoop then 0 else port) of
           Inl e \<Rightarrow> (Err e, c\<lparr>net_conn := None\<rparr>)
         | Inr h \<Rightarrow> (Ok (), c\<lparr>net_conn := Some h, net_bRead := False, net_adr := \<lparr>IP = ip, Port = port\<rparr>\<rparr>)))"

definition netIf_Send ::
  "(nat option \<Rightarrow> byte list \<Rightarrow> UDPAddr \<Rightarrow> nat outcome) \<Rightarrow> byte list \<Rightarrow> netIf \<Rightarrow> nat outcome" where
  "netIf_Send write buff c = (if net_bRead c then Err ErrModeRW else write (net_conn c) buff (net_adr c))"

definition netIf_Recv ::
  "(nat option \<Rightarrow> (nat \<times> UDPAddr) outcome) \<Rightarrow> netIf \<Rightarrow> (nat \<times> UDPAddr) outcome" where
  "netIf_Recv read c = (if \<not> net_bRead c then Err ErrModeRW else read (net_conn c))"

definition netIf_MSend :: "byte list list \<Rightarrow> netIf \<Rightarrow> nat outcome" where
  "netIf_MSend buffs c = Err ErrNotSupport"

definition netIf_MRecv :: "netIf \<Rightarrow> (byte list list \<times> UDPAddr option) outcome" where
  "netIf_MRecv c = Err ErrNotSupport"

interpretation net_if: mcast_conn "\<lambda>c. True" "\<lambda>c. net_conn c \<noteq> None" net_bRead "netIf_Close close"
  "netIf_Open listen ip port" "netIf_OpenSend listen ip port bLoop"
  for close listen ip port bLoop
  by unfold_locales
    (auto simp: netIf_Close_def netIf_Open_def netIf_OpenSend_def split: option.splits sum.splits)

subsection \<open>Over a datagram socket\<close>

record sockIf =
  sock_dst :: SockaddrInet4
  sock_fd :: int
  sock_bRead :: bool
  sock_buffs :: "byte list list"

definition maxBatch :: nat where "maxBatch = 32"
definition MAX_BATCH :: nat where "MAX_BATCH = 64"

definition newSockIf :: sockIf where
  "newSockIf = \<lparr>sock_dst = \<lparr>sa_Port = 0, sa_Addr = [0, 0, 0, 0]\<rparr>, sock_fd = -1, sock_bRead = False,
     sock_buffs = replicate maxBatch []\<rparr>"

text \<open>
  The system calls: \<open>socket\<close> gives a descriptor (not negative) or an error, \<open>bind\<close>, \<open>loop\<close>
  (the option for multicast loopback) and \<open>close\<close> an error or none.
\<close>

definition sockIf_Close :: "(int \<Rightarrow> unit outcome) \<Rightarrow> sockIf \<Rightarrow> unit outcome \<times> sockIf" where
  "sockIf_Close close c =
     (if sock_fd c < 0 then (Err ErrClosed, c)
      else (close (sock_fd c), c\<lparr>sock_fd := -1\<rparr>))"

definition set_dst :: "byte list \<Rightarrow> int \<Rightarrow> sockIf \<Rightarrow> sockIf" where
  "set_dst ip port c =
     c\<lparr>sock_dst := \<lparr>sa_Port = port, sa_Addr = go_copy (sa_Addr (sock_dst c)) (To4 ip)\<rparr>\<rparr>"

definition sockIf_Open ::
  "(go_error + nat) \<Rightarrow> (int \<Rightarrow> go_error option) \<Rightarrow> byte list \<Rightarrow> int \<Rightarrow> sockIf \<Rightarrow> unit outcome \<times> sockIf" where
  "sockIf_Open socket bind ip port c =
     (if 0 \<le> sock_fd c then (Err ErrOpened, c)
      else
        let c1 = set_dst ip port c
        in (case socket of
              Inl e \<Rightarrow> (Err e, c1\<lparr>sock_fd := -1\<rparr>)
            | Inr fd \<Rightarrow>
                let c2 = c1\<lparr>sock_fd := int fd\<rparr>
                in (case bind port of
                      Some e \<Rightarrow> (Err e, c2)
                    | None \<Rightarrow>
                        (Ok (), c2\<lparr>sock_bRead := True,
                           sock_buffs := replicate maxBatch (replicate 2048 0)\<rparr>))))"

definition sockIf_OpenSend ::
  "(go_error + nat) \<Rightarrow> (int \<Rightarrow> go_error option) \<Rightarrow> unit outcome \<Rightarrow> byte list \<Rightarrow> int \<Rightarrow> bool \<Rightarrow>
   sockIf \<Rightarrow> unit outcome \<times> sockIf" where
  "sockIf_OpenSend socket bind loop ip port bLoop c =
     (if 0 \<le> sock_fd c then (Err ErrOpened, c)
      else
        let c1 = set_dst ip port c
        in (case socket of
              Inl e \<Rightarrow> (Err e, c1\<lparr>sock_fd := -1\<rparr>)
            | Inr fd \<Rightarrow>
                let c2 = c1\<lparr>sock_fd := int fd\<rparr>
                in (case bind (if bLoop then 0 else port) of
                      Some e \<Rightarrow> (Err e, c2)
                    | None \<Rightarrow>
                        let c3 = c2\<lparr>sock_bRead := False\<rparr>
                        in if bLoop then (loop, c3) else (Ok (), c3))))"

definition sockIf_Enabled :: "int \<Rightarrow> bool" where
  "sockIf_Enabled opts = (opts AND HasMmsg \<noteq> 0)"

definition sockIf_Recv ::
  "(int \<Rightarrow> (nat \<times> SockaddrInet4) outcome) \<Rightarrow> sockIf \<Rightarrow> (nat \<times> UDPAddr) outcome" where
  "sockIf_Recv recvfrom c =
     (if \<not> sock_bRead c then Err ErrModeRW
      else bind_outcome (recvfrom (sock_fd c)) (\<lambda>(n, a).
        Ok (n, \<lparr>IP = net_IPv4 (sa_Addr a ! 0) (sa_Addr a ! 1) (sa_Addr a ! 2) (sa_Addr a ! 3),
                Port = sa_Port a\<rparr>)))"

definition sockIf_Send ::
  "(int \<Rightarrow> byte list \<Rightarrow> SockaddrInet4 \<Rightarrow> nat outcome) \<Rightarrow> byte list \<Rightarrow> sockIf \<Rightarrow> nat outcome" where
  "sockIf_Send sendto buff c =
     (if sock_bRead c then Err ErrModeRW else sendto (sock_fd c) buff (sock_dst c))"

text \<open>
  The batched calls of rsocket.go on up to 64 buffers. \<open>sendmmsg\<close> gets the datagrams and
  answers how many went out; \<open>recvmmsg\<close> gets the buffer sizes and answers the datagrams (none
  when nothing was there) with the sender of the first. Taking the address of an empty buffer
  panics.
\<close>

definition Sendmmsg ::
  "(int \<Rightarrow> byte list list \<Rightarrow> SockaddrInet4 \<Rightarrow> nat outcome) \<Rightarrow> int \<Rightarrow> byte list list \<Rightarrow> SockaddrInet4 \<Rightarrow> nat outcome" where
  "Sendmmsg sendmmsg fd bufs to =
     (let bs = take MAX_BATCH bufs
      in if [] \<in> set bs then Panic IndexOutOfRange else sendmmsg fd bs to)"

definition Recvmmsg ::
  "(int \<Rightarrow> nat list \<Rightarrow> (byte list list \<times> SockaddrInet4) outcome) \<Rightarrow> int \<Rightarrow> byte list list \<Rightarrow>
   (nat \<times> byte list list \<times> SockaddrInet4) outcome" where
  "Recvmmsg recvmmsg fd bufs =
     (let bs = take MAX_BATCH bufs
      in if [] \<in> set bs then Panic IndexOutOfRange
         else bind_outcome (recvmmsg fd (map length bs)) (\<lambda>(dgrams, from).
           let got = map2 (\<lambda>buf d. take (length d) (go_copy buf d)) bs dgrams
           in Ok (length dgrams, got @ drop (length dgrams) bufs, from)))"

definition sockIf_MSend ::
  "(int \<Rightarrow> byte list list \<Rightarrow> SockaddrInet4 \<Rightarrow> nat outcome) \<Rightarrow> byte list list \<Rightarrow> sockIf \<Rightarrow> nat outcome" where
  "sockIf_MSend sendmmsg buffs c =
     (if sock_bRead c then Err ErrModeRW else Sendmmsg sendmmsg (sock_fd c) buffs (sock_dst c))"

definition sockIf_MRecv ::
  "(int \<Rightarrow> nat list \<Rightarrow> (byte list list \<times> SockaddrInet4) outcome) \<Rightarrow> sockIf \<Rightarrow>
   (byte list list \<times> UDPAddr option) outcome" where
  "sockIf_MRecv recvmmsg c =
     (if \<not> sock_bRead c then Err ErrModeRW
      else bind_outcome (Recvmmsg recvmmsg (sock_fd c) (sock_buffs c)) (\<lambda>(n, bufs, a).
        if n = 0 then Ok ([], None)
        else Ok (take n bufs,
          Some \<lparr>IP = net_IPv4 (sa_Addr a ! 0) (sa_Addr a ! 1) (sa_Addr a ! 2) (sa_Addr a ! 3),
                Port = sa_Port a\<rparr>)))"

text \<open>The same operations on other systems (sockif_notlnx.go).\<close>

definition sockIf_Enabled_other :: "int \<Rightarrow> bool" where
  "sockIf_Enabled_other opts = False"

definition sockIf_MSend_other :: "byte list list \<Rightarrow> sockIf \<Rightarrow> nat outcome" where
  "sockIf_MSend_other buffs c = (if sock_bRead c then Err ErrModeRW else Err ErrNotSupport)"

definition sockIf_MRecv_other :: "sockIf \<Rightarrow> (byte list list \<times> UDPAddr option) outcome" where
  "sockIf_MRecv_other c = (if \<not> sock_bRead c then Err ErrModeRW else Err ErrNotSupport)"

interpretation sock_if: mcast_conn "\<lambda>c. True" "\<lambda>c. 0 \<le> sock_fd c" sock_bRead "sockIf_Close close"
  "sockIf_Open socket bind ip port" "sockIf_OpenSend socket bind loop ip port bLoop"
  for close socket bind loop ip port bLoop
  by unfold_locales
    (auto simp: sockIf_Close_def sockIf_Open_def sockIf_OpenSend_def set_dst_def Let_def
      split: option.splits sum.splits if_splits)

subsection \<open>Over the ring buffers of a packet socket\<close>

record zsockIf =
  z_zs :: "ZSocket option"
  z_dst :: "byte list"
  z_src :: "byte list"
  z_dstIP :: "byte list"
  z_srcIP :: "byte list"
  z_bRead :: bool
  z_port :: int
  z_fake :: bool

definition newZSockIf :: zsockIf where
  "newZSockIf = \<lparr>z_zs = None, z_dst = [], z_src = [], z_dstIP = [0, 0, 0, 0], z_srcIP = [0, 0, 0, 0],
     z_bRead = False, z_port = 0, z_fake = False\<rparr>"

definition zsockIf_Enabled :: "int \<Rightarrow> bool" where
  "zsockIf_Enabled opts =
     (if opts AND HasRingBuffer \<noteq> 0 then True else if opts AND HasMmsg \<noteq> 0 then True else False)"

definition zsockIf_Close :: "(ZSocket \<Rightarrow> unit outcome) \<Rightarrow> zsockIf \<Rightarrow> unit outcome \<times> zsockIf" where
  "zsockIf_Close close c =
     (case z_zs c of None \<Rightarrow> (Err ErrClosed, c) | Some zs \<Rightarrow> (close zs, c\<lparr>z_zs := None\<rparr>))"

text \<open>
  \<open>ifn\<close> is the hardware address of the interface, \<open>None\<close> for a nil pointer; \<open>newzs\<close> what
  \<open>NewZSocket\<close> returns, \<open>joined\<close> whether the membership request of \<open>JoinPacketMulticast\<close>
  succeeds (it takes the address of the first byte of the group), \<open>ifAddr\<close> the address of the
  interface when \<open>getIfAddr\<close> finds it.
\<close>

definition zsockIf_Open ::
  "(go_error + ZSocket) \<Rightarrow> bool \<Rightarrow> byte list \<Rightarrow> int \<Rightarrow> byte list option \<Rightarrow> zsockIf \<Rightarrow> unit outcome \<times> zsockIf" where
  "zsockIf_Open newzs joined ip port ifn c =
     (if z_zs c \<noteq> None then (Err ErrOpened, c)
      else
        (case ifn of
           None \<Rightarrow> (Panic NilDeref, c)
         | Some hw \<Rightarrow>
             (case newzs of
                Inl e \<Rightarrow> (Err e, c\<lparr>z_zs := None\<rparr>)
              | Inr zs \<Rightarrow>
                  let c1 = c\<lparr>z_zs := Some zs, z_port := port, z_src := go_copy (replicate 6 0) hw\<rparr>
                  in if To4 ip = [] then (Panic IndexOutOfRange, c1)
                     else
                       let c2 = (if joined then c1\<lparr>z_dstIP := go_copy (z_dstIP c1) (To4 ip)\<rparr> else c1)
                       in (Ok (), c2\<lparr>z_bRead := True\<rparr>))))"

definition zsockIf_OpenSend ::
  "(go_error + ZSocket) \<Rightarrow> byte list option \<Rightarrow> byte list \<Rightarrow> int \<Rightarrow> byte list option \<Rightarrow> zsockIf \<Rightarrow>
   unit outcome \<times> zsockIf" where
  "zsockIf_OpenSend newzs ifAddr ip port ifn c =
     (if z_zs c \<noteq> None then (Err ErrOpened, c)
      else
        (case ifn of
           None \<Rightarrow> (Panic NilDeref, c)
         | Some hw \<Rightarrow>
             let c1 = c\<lparr>z_zs := (case newzs of Inl e \<Rightarrow> None | Inr zs \<Rightarrow> Some zs)\<rparr>;
                 c2 = c1\<lparr>z_port := port, z_src := go_copy (replicate 6 0) hw\<rparr>;
                 c3 = (case ifAddr of
                         None \<Rightarrow> c2 | Some adr \<Rightarrow> c2\<lparr>z_srcIP := go_copy (z_srcIP c2) (To4 adr)\<rparr>);
                 c4 = (if To4 ip \<noteq> [] then c3\<lparr>z_dstIP := go_copy (z_dstIP c3) (To4 ip)\<rparr> else c3);
                 c5 = c4\<lparr>z_dst := GetMulticastHWAddr (To4 ip), z_bRead := False\<rparr>
             in (case newzs of
                   Inl e \<Rightarrow> if \<not> z_fake c1 then (Err e, c1) else (Ok (), c5)
                 | Inr zs \<Rightarrow> (Ok (), c5))))"

text \<open>The frame a payload is sent in: hardware addresses, headers, payload.\<close>

definition zsockIf_copyFx :: "(byte list \<Rightarrow> u16) \<Rightarrow> zsockIf \<Rightarrow> copy_fun" where
  "zsockIf_copyFx cks c dst src l0 =
     (let l = (if l0 \<le> 0 then int (length src) else l0)
      in if length dst < 6 then Panic SliceOutOfRange
         else
           let d1 = go_copy dst (z_dst c);
               d2 = put_slice d1 6 (length d1) (z_src c)
           in bind_outcome (buildRawUDP cks d2 l (z_port c) (z_srcIP c) (z_dstIP c)) (\<lambda>d3.
                Ok (put_slice d3 42 (length d3) src, of_int (l + 28 + 14))))"

definition zsockIf_Send ::
  "(byte list \<Rightarrow> u16) \<Rightarrow> poll_answer list \<Rightarrow> go_error option \<Rightarrow> kernel \<Rightarrow> byte list \<Rightarrow> zsockIf \<Rightarrow>
   (nat outcome \<times> zsockIf) option" where
  "zsockIf_Send cks answers send k buff c =
     (if z_bRead c then Some (Err ErrModeRW, c)
      else
        (case z_zs c of
           None \<Rightarrow> Some (Panic NilDeref, c)
         | Some zs \<Rightarrow>
             (case CopyToBuffer answers buff (of_nat (length buff)) (zsockIf_copyFx cks c) zs of
                None \<Rightarrow> None
              | Some (Err e, zs1) \<Rightarrow> Some (Err e, c\<lparr>z_zs := Some zs1\<rparr>)
              | Some (Panic p, zs1) \<Rightarrow> Some (Panic p, c\<lparr>z_zs := Some zs1\<rparr>)
              | Some (Ok i, zs1) \<Rightarrow>
                  (case FlushFrames send k zs1 of
                     (Ok r, zs2) \<Rightarrow> Some (Ok (length buff), c\<lparr>z_zs := Some zs2\<rparr>)
                   | (Err e, zs2) \<Rightarrow> Some (Err e, c\<lparr>z_zs := Some zs2\<rparr>)
                   | (Panic p, zs2) \<Rightarrow> Some (Panic p, c\<lparr>z_zs := Some zs2\<rparr>)))))"

text \<open>\<open>answers n\<close> are the answers of the kernel while the frame of buffer \<open>n\<close> is claimed.\<close>

definition zsockIf_MSend ::
  "(byte list \<Rightarrow> u16) \<Rightarrow> (nat \<Rightarrow> poll_answer list) \<Rightarrow> go_error option \<Rightarrow> kernel \<Rightarrow> byte list list \<Rightarrow>
   zsockIf \<Rightarrow> (nat outcome \<times> zsockIf) option" where
  "zsockIf_MSend cks answers send k buffs c =
     (if buffs = [] then Some (Ok 0, c)
      else
        (case z_zs c of
           None \<Rightarrow> Some (Panic NilDeref, c)
         | Some zs \<Rightarrow>
             (case msend_loop
                 (\<lambda>n b. CopyToBuffer (answers n) b (of_nat (length b)) (zsockIf_copyFx cks c)) 0 buffs zs of
                None \<Rightarrow> None
              | Some (Err e, zs1) \<Rightarrow> Some (Err e, c\<lparr>z_zs := Some zs1\<rparr>)
              | Some (Panic p, zs1) \<Rightarrow> Some (Panic p, c\<lparr>z_zs := Some zs1\<rparr>)
              | Some (Ok n, zs1) \<Rightarrow>
                  if 0 < n then
                    (case FlushFrames send k zs1 of
                       (Ok r, zs2) \<Rightarrow> Some (Ok n, c\<lparr>z_zs := Some zs2\<rparr>)
                     | (Err e, zs2) \<Rightarrow> Some (Err e, c\<lparr>z_zs := Some zs2\<rparr>)
                     | (Panic p, zs2) \<Rightarrow> Some (Panic p, c\<lparr>z_zs := Some zs2\<rparr>))
                  else Some (Ok 0, c\<lparr>z_zs := Some zs1\<rparr>))))"

definition zsockIf_Recv :: "zsockIf \<Rightarrow> (nat \<times> UDPAddr) outcome" where
  "zsockIf_Recv c = (if \<not> z_bRead c then Err ErrModeRW else Err ErrNotSupport)"

definition zsockIf_MRecv :: "zsockIf \<Rightarrow> (byte list list \<times> UDPAddr option) outcome" where
  "zsockIf_MRecv c = Err ErrNotSupport"

interpretation zsock_if: mcast_conn "\<lambda>c. \<not> z_fake c" "\<lambda>c. z_zs c \<noteq> None" z_bRead "zsockIf_Close close"
  "zsockIf_Open newzs joined ip port ifn" "zsockIf_OpenSend newzs ifAddr ip port ifn"
  for close newzs joined ip port ifn ifAddr
  by unfold_locales
    (auto simp: zsockIf_Close_def zsockIf_Open_def zsockIf_OpenSend_def Let_def
      split: option.splits sum.splits if_splits)

subsection \<open>What a ring connection hears\<close>

text \<open>
  The callback of \<open>zsockIf.Listen\<close> for one frame. The accessors of the third-party package
  nettypes are arguments: a payload accessor returns the payload and the length of the header
  in front of it. Lengths are 16-bit and wrap. \<open>None\<close>: the frame is dropped.
\<close>

record nettypes =
  MACEthertype :: "byte list \<Rightarrow> u16"
  MACPayload :: "byte list \<Rightarrow> byte list \<times> u16"
  ip_Protocol :: "byte list \<Rightarrow> u16"
  ip_Length :: "byte list \<Rightarrow> u16"
  ip_Payload :: "byte list \<Rightarrow> byte list \<times> u16"
  ip_SourceIP :: "byte list \<Rightarrow> byte list"
  udp_DestinationPort :: "byte list \<Rightarrow> u16"
  udp_SourcePort :: "byte list \<Rightarrow> u16"
  udp_Length :: "byte list \<Rightarrow> u16"
  udp_Payload :: "byte list \<Rightarrow> byte list \<times> u16"
  nt_IPv4 :: u16
  nt_UDP :: u16

definition zsockIf_heard ::
  "nettypes \<Rightarrow> zsockIf \<Rightarrow> byte list \<Rightarrow> u16 \<Rightarrow> (byte list \<times> UDPAddr) option outcome" where
  "zsockIf_heard nt c fb capturedLen =
     (if length fb < unat capturedLen then Panic SliceOutOfRange
      else
        let f = take (unat capturedLen) fb
        in if MACEthertype nt f \<noteq> nt_IPv4 nt then Ok None
           else
             let (ip, mOff) = MACPayload nt f; ln1 = capturedLen - mOff
             in if ip_Protocol nt ip \<noteq> nt_UDP nt then Ok None
                else if ln1 < ip_Length nt ip then Ok None
                else
                  let (udp, iOff) = ip_Payload nt ip; ips = ip_SourceIP nt ip
                  in if length ips < 4 then Panic IndexOutOfRange
                     else if uint (udp_DestinationPort nt udp) \<noteq> z_port c then Ok None
                     else
                       let ln2 = ln1 - iOff
                       in if ln2 < udp_Length nt udp then Ok None
                          else Ok (Some (fst (udp_Payload nt udp),
                            \<lparr>IP = net_IPv4 (ips ! 0) (ips ! 1) (ips ! 2) (ips ! 3),
                             Port = uint (udp_SourcePort nt udp)\<rparr>)))"

subsection \<open>The registry\<close>

datatype McastConn = NetIf netIf | SockIf sockIf | ZSockIf zsockIf

text \<open>The names the \<open>init\<close> functions register on Linux.\<close>

definition ifFuncMap :: "string \<rightharpoonup> McastConn" where
  "ifFuncMap = [''sock'' \<mapsto> SockIf newSockIf, ''socket'' \<mapsto> SockIf newSockIf,
     ''zsock'' \<mapsto> ZSockIf newZSockIf, ''zsocket'' \<mapsto> ZSockIf newZSockIf]"

definition NewIf :: "string \<Rightarrow> McastConn" where
  "NewIf netMode =
     (if netMode = ''net'' then NetIf newNetIf
      else (case ifFuncMap netMode of Some c \<Rightarrow> c | None \<Rightarrow> NetIf newNetIf))"

fun conn_Enabled :: "int \<Rightarrow> McastConn \<Rightarrow> bool" where
  "conn_Enabled opts (NetIf c) = netIf_Enabled opts"
| "conn_Enabled opts (SockIf c) = sockIf_Enabled opts"
| "conn_Enabled opts (ZSockIf c) = zsockIf_Enabled opts"

text \<open>How \<open>doMsgLoop\<close> receives from a connection.\<close>

datatype recv_mode = UseListen | UseMRecv | UseRecv

definition recv_mode_of :: "McastConn \<Rightarrow> recv_mode" where
  "recv_mode_of c =
     (if conn_Enabled HasRingBuffer c then UseListen
      else if conn_Enabled HasMmsg c then UseMRecv else UseRecv)"

end
