(* ===== verification/Cmd_Client.thy ===== *)
theory Cmd_Client
  imports Client_Live Mcast_If
begin

section \<open>The command line client (cmd/client/main.go)\<close>

text \<open>
  \<open>main\<close> starts a client and runs three goroutines over it: the reader calls \<open>Read\<close> and keeps
  the first and the last message as ticks, the main loop wakes up every second, stops a client
  that hears nothing and logs, and the signal handler stops it on a signal. \<open>Bytes2TickFX\<close> of
  the package go-ats decodes a message and is an argument. Log lines are values.

  The state has the variables of \<open>main\<close> that the goroutines share, around the system of the
  client library: \<open>held\<close> is what \<open>Read\<close> has returned and the reader is dealing with, \<open>at_stmt\<close>
  the statement it has come to with it (there is no lock, so the main loop and the end of
  \<open>main\<close> can run between any two of them); \<open>shown\<close> is ghost state, the messages the reader is
  done with. \<open>firstTic\<close> and \<open>lastTic\<close> are pointers, nil is \<open>None\<close>; \<open>fTic\<close> and \<open>lTic\<close> are
  structs copied from them, with \<open>None\<close> for the zero tick they start as.
\<close>

datatype read_stmt = SetLastSeq | SetFirst | CopyFirst | SetLast | CopyLast

record 'k app =
  world :: sys
  held :: "(Message list \<times> u64) option"
  at_stmt :: read_stmt
  firstTic :: "'k option"
  lastTic :: "'k option"
  fTic :: "'k option"
  lTic :: "'k option"
  app_lastSeq :: u64
  nextDisp :: int
  shown :: "Message list"

datatype 'k log_line =
    NoRecv int
  | FirstMessage "'k option"
  | DumpStats
  | LastMessage "'k option"
  | LastBlock u64 u64 int

definition upd_client :: "(Client \<Rightarrow> Client) \<Rightarrow> 'k app \<Rightarrow> 'k app" where
  "upd_client f a = a\<lparr>world := (world a)\<lparr>client := f (client (world a))\<rparr>\<rparr>"

definition stop :: "Client \<Rightarrow> Client" where
  "stop c = c\<lparr>Running := False\<rparr>"

text \<open>Addition of \<open>int64\<close>.\<close>

definition add64 :: "int \<Rightarrow> int \<Rightarrow> int" where
  "add64 x y = sint (of_int (x + y) :: u64)"

subsection \<open>Starting\<close>

definition start_app :: "sys \<Rightarrow> 'k app" where
  "start_app s = \<lparr>world = s, held = None, at_stmt = SetLastSeq, firstTic = None, lastTic = None, fTic = None, lTic = None,
     app_lastSeq = 0, nextDisp = 0, shown = []\<rparr>"

text \<open>
  \<open>main\<close> up to its loops, with the options it parsed: the exit code when \<open>NewClient\<close> fails.
  \<open>open_conn\<close> is \<open>Open\<close> of the connection that \<open>NewIf\<close> chooses.
\<close>

definition main_start ::
  "(string \<Rightarrow> byte list) \<Rightarrow> (string \<Rightarrow> int) \<Rightarrow> (string \<Rightarrow> nat option) \<Rightarrow>
   (McastConn \<Rightarrow> byte list \<Rightarrow> int \<Rightarrow> nat option \<Rightarrow> go_error option) \<Rightarrow> int \<Rightarrow> string \<Rightarrow> string \<Rightarrow> int \<Rightarrow>
   Option \<Rightarrow> nat \<Rightarrow> (int + 'k app) outcome" where
  "main_start parseIP toInt ifByName open_conn now netMode maddr port opt h =
     (case NewClient parseIP toInt ifByName (open_conn (NewIf netMode)) now maddr port opt h of
        Err e \<Rightarrow> Ok (Inl 1)
      | Panic p \<Rightarrow> Panic p
      | Ok c \<Rightarrow> Ok (Inr (start_app
          \<lparr>client = c, flying = None, taken = None, received = {}, handedOut = []\<rparr>)))"

definition ensure_LastRecv :: "int \<Rightarrow> Client \<Rightarrow> Client" where
  "ensure_LastRecv now c = (if LastRecv c = 0 then c\<lparr>LastRecv := time_unix now\<rparr> else c)"

subsection \<open>The goroutines\<close>

text \<open>
  What the reader does with messages \<open>mess\<close> that \<open>Read\<close> returned, one statement at a time. An
  empty batch is skipped; after the last statement the reader is done with the batch.
\<close>

definition on_read :: "(byte list \<Rightarrow> 'k option) \<Rightarrow> Message list \<Rightarrow> u64 \<Rightarrow> 'k app \<Rightarrow> 'k app" where
  "on_read Bytes2TickFX mess lastS a =
     (case at_stmt a of
        SetLastSeq \<Rightarrow>
          if mess = [] then a\<lparr>held := None\<rparr> else a\<lparr>app_lastSeq := lastS, at_stmt := SetFirst\<rparr>
      | SetFirst \<Rightarrow>
          if firstTic a = None
          then a\<lparr>firstTic := Bytes2TickFX (Data (hd mess)), at_stmt := CopyFirst\<rparr>
          else a\<lparr>at_stmt := SetLast\<rparr>
      | CopyFirst \<Rightarrow>
          (if firstTic a \<noteq> None then a\<lparr>fTic := firstTic a\<rparr> else a)\<lparr>at_stmt := SetLast\<rparr>
      | SetLast \<Rightarrow> a\<lparr>lastTic := Bytes2TickFX (Data (last mess)), at_stmt := CopyLast\<rparr>
      | CopyLast \<Rightarrow>
          (if lastTic a \<noteq> None then a\<lparr>lTic := lastTic a\<rparr> else a)
            \<lparr>at_stmt := SetLastSeq, held := None, shown := shown a @ mess\<rparr>)"

text \<open>A tick of the main loop, with \<open>waits\<close> the option \<open>-w\<close>.\<close>

definition main_tick :: "int \<Rightarrow> int \<Rightarrow> 'k app \<Rightarrow> 'k log_line list \<times> 'k app" where
  "main_tick waits now a =
     (let tt = time_unix now;
          (out1, a1) =
            (if 0 < waits \<and> add64 (LastRecv (client (world a))) waits < tt
             then ([NoRecv waits], upd_client stop a) else ([], a))
      in if nextDisp a1 = 0 then
           (if firstTic a1 \<noteq> None
            then (out1 @ [FirstMessage (fTic a1)], a1\<lparr>nextDisp := add64 tt 30\<rparr>) else (out1, a1))
         else if nextDisp a1 < tt then (out1 @ [DumpStats], a1\<lparr>nextDisp := add64 tt 30\<rparr>)
         else (out1, a1))"

text \<open>
  The end of \<open>main\<close>, after its loop, as one step. It reads \<open>lastTic\<close> and then \<open>lTic\<close>; what holds
  of \<open>lTic\<close> in every reachable state holds of the value it logs also when the reader goes on
  between the two.
\<close>

definition main_end :: "'k app \<Rightarrow> 'k log_line list" where
  "main_end a =
     (let (lastSeqN, n) = client_LastSeq (client (world a))
      in (if lastTic a \<noteq> None then [LastMessage (lTic a)] else []) @
         [LastBlock (app_lastSeq a) lastSeqN n, DumpStats])"

datatype os_signal = Kill | Interrupt | SIGTERM | SIGQUIT | OtherSignal

text \<open>The handler stops the client and ends the process with exit code 1, or only logs.\<close>

definition on_signal :: "os_signal \<Rightarrow> 'k app \<Rightarrow> int option \<times> 'k app" where
  "on_signal s a = (if s = OtherSignal then (None, a) else (Some 1, upd_client stop a))"

subsection \<open>The whole program\<close>

text \<open>
  The steps of the command: those of the library, where a step of the library's reader is one
  of this program's reader, which calls \<open>Read\<close> again only when it has dealt with what the last
  call returned.
\<close>

inductive cmd_step :: "(byte list \<Rightarrow> 'k option) \<Rightarrow> int \<Rightarrow> (byte list \<Rightarrow> bool) \<Rightarrow> 'k app \<Rightarrow> 'k app \<Rightarrow> bool"
  for B2T :: "byte list \<Rightarrow> 'k option" and waits :: int and wire :: "byte list \<Rightarrow> bool" where
  library: "sys_step wire (world a) t \<Longrightarrow> taken t = taken (world a) \<and> handedOut t = handedOut (world a) \<Longrightarrow>
     cmd_step B2T waits wire a (a\<lparr>world := t\<rparr>)"
| read_called: "held a = None \<Longrightarrow> sys_step wire (world a) t \<Longrightarrow> taken (world a) = None \<Longrightarrow> taken t \<noteq> None \<Longrightarrow>
     handedOut t = handedOut (world a) \<Longrightarrow>
     cmd_step B2T waits wire a (a\<lparr>world := t\<rparr>)"
| read_returned: "taken (world a) = Some u \<Longrightarrow>
     cmd_step B2T waits wire a
       (a\<lparr>world := (world a)\<lparr>client := read_check u (client (world a)), taken := None,
            handedOut := handedOut (world a) @ opt_list (fst u)\<rparr>,
          held := map_option (\<lambda>r. (r, snd u)) (fst u)\<rparr>)"
| reader: "held a = Some (mess, lastS) \<Longrightarrow>
     cmd_step B2T waits wire a (on_read B2T mess lastS a)"
| settle: "cmd_step B2T waits wire a (upd_client (ensure_LastRecv now) a)"
| tick: "Running (client (world a)) \<Longrightarrow> main_tick waits now a = (out, b) \<Longrightarrow> cmd_step B2T waits wire a b"
| signal: "on_signal sg a = (ec, b) \<Longrightarrow> cmd_step B2T waits wire a b"

definition cmd_start :: "u64 \<Rightarrow> nat \<Rightarrow> 'k app \<Rightarrow> bool" where
  "cmd_start s0 L a \<longleftrightarrow> (\<exists>s. client_start s0 L s \<and> a = start_app s)"

text \<open>A command whose options are accepted starts in such a state.\<close>

lemma main_start_starts:
  assumes "main_start parseIP toInt ifByName open_conn now netMode maddr port opt h = Ok (Inr a)"
    and "s0 = (if NextSeq opt = 0 then 1 else NextSeq opt)" "unat s0 \<le> L" "L < 18446744073709551616"
  shows "cmd_start s0 L a"
proof -
  from assms(1) obtain c where
    c: "NewClient parseIP toInt ifByName (open_conn (NewIf netMode)) now maddr port opt h = Ok c"
      "a = start_app \<lparr>client = c, flying = None, taken = None, received = {}, handedOut = []\<rparr>"
    by (auto simp: main_start_def split: outcome.splits)
  have "started s0 \<lparr>client = c, flying = None, taken = None, received = {}, handedOut = []\<rparr>"
    unfolding started_def using c(1) assms(2) by (auto intro!: exI)
  then show ?thesis using c(2) assms(3,4) by (auto simp: cmd_start_def client_start_def)
qed

subsection \<open>The invariant\<close>

text \<open>A reported tick is the zero tick or a decoded message of \<open>ms\<close>.\<close>

definition tick_of :: "(byte list \<Rightarrow> 'k option) \<Rightarrow> Message list \<Rightarrow> 'k option \<Rightarrow> bool" where
  "tick_of B2T ms t \<longleftrightarrow> t = None \<or> (\<exists>m \<in> set ms. t = B2T (Data m))"

lemma tick_of_None [simp]: "tick_of B2T ms None"
  by (simp add: tick_of_def)

lemma tick_of_mono: "tick_of B2T ms t \<Longrightarrow> set ms \<subseteq> set ms' \<Longrightarrow> tick_of B2T ms' t"
  by (auto simp: tick_of_def)

definition batch :: "'k app \<Rightarrow> Message list" where
  "batch a = opt_list (map_option fst (held a))"

definition last_ok :: "(byte list \<Rightarrow> 'k option) \<Rightarrow> 'k app \<Rightarrow> bool" where
  "last_ok B2T a \<longleftrightarrow>
     (if at_stmt a = CopyLast then lastTic a = B2T (Data (last (batch a)))
      else lastTic a = (if shown a = [] then None else B2T (Data (last (shown a)))) \<and>
        (lastTic a \<noteq> None \<longrightarrow> lTic a = lastTic a))"

definition first_ok :: "(byte list \<Rightarrow> 'k option) \<Rightarrow> 'k app \<Rightarrow> bool" where
  "first_ok B2T a \<longleftrightarrow>
     (if at_stmt a \<in> {SetLastSeq, SetFirst}
      then (shown a = [] \<longrightarrow> firstTic a = None) \<and>
        (shown a \<noteq> [] \<longrightarrow> B2T (Data (hd (shown a))) \<noteq> None \<longrightarrow> firstTic a = B2T (Data (hd (shown a))))
      else B2T (Data (hd (shown a @ batch a))) \<noteq> None \<longrightarrow> firstTic a = B2T (Data (hd (shown a @ batch a)))) \<and>
     (at_stmt a \<noteq> CopyFirst \<longrightarrow> firstTic a \<noteq> None \<longrightarrow> fTic a = firstTic a)"

definition report_ok :: "(byte list \<Rightarrow> 'k option) \<Rightarrow> 'k app \<Rightarrow> bool" where
  "report_ok B2T a \<longleftrightarrow>
     (at_stmt a \<noteq> SetLastSeq \<longrightarrow> batch a \<noteq> []) \<and> last_ok B2T a \<and> first_ok B2T a \<and>
     (\<forall>t \<in> {firstTic a, fTic a, lastTic a, lTic a}. tick_of B2T (shown a @ batch a) t)"

definition cmd_inv :: "(byte list \<Rightarrow> 'k option) \<Rightarrow> (nat \<Rightarrow> Message) \<Rightarrow> nat \<Rightarrow> nat \<Rightarrow> 'k app \<Rightarrow> bool" where
  "cmd_inv B2T src s0 L a \<longleftrightarrow>
     sys_inv src s0 L (world a) \<and> (held a \<noteq> None \<longrightarrow> taken (world a) = None) \<and>
     handedOut (world a) = shown a @ batch a \<and> report_ok B2T a"

lemmas report_defs = report_ok_def last_ok_def first_ok_def batch_def

lemma report_ok_cong:
  assumes "held b = held a" "at_stmt b = at_stmt a" "shown b = shown a" "firstTic b = firstTic a"
    "lastTic b = lastTic a" "fTic b = fTic a" "lTic b = lTic a"
  shows "report_ok B2T b = report_ok B2T a" "batch b = batch a"
  using assms by (simp_all add: report_defs)

lemma sys_inv_upd:
  assumes "seqNo (f c) = seqNo c" "cache (f c) = cache c" "ready (f c) = ready c" "ch (f c) = ch c"
    "reqSrv (f c) = reqSrv c" "robinN (f c) = robinN c" "bDone (f c) = bDone c"
    "endSession (f c) = endSession c" "seqEnd (f c) = seqEnd c" "c = client s"
  shows "sys_inv src s0 L (s\<lparr>client := f c\<rparr>) = sys_inv src s0 L s"
  using assms reasm_inv_cong [OF assms(1-3)] client_ok_cong [OF assms(2,4,5,6)]
  by (simp add: sys_inv_def eos_ok_def)

lemma cmd_inv_upd:
  assumes "cmd_inv B2T src s0 L a"
  shows "cmd_inv B2T src s0 L (upd_client stop a)" "cmd_inv B2T src s0 L (upd_client (ensure_LastRecv now) a)"
  using assms by (simp_all add: cmd_inv_def upd_client_def stop_def ensure_LastRecv_def sys_inv_upd report_defs)

lemma cmd_inv_display: "cmd_inv B2T src s0 L (a\<lparr>nextDisp := d\<rparr>) = cmd_inv B2T src s0 L a"
  by (simp add: cmd_inv_def report_defs)

lemma main_tick_inv:
  "cmd_inv B2T src s0 L a \<Longrightarrow> main_tick waits now a = (out, b) \<Longrightarrow> cmd_inv B2T src s0 L b"
  using cmd_inv_upd(1) by (fastforce simp: main_tick_def Let_def cmd_inv_display split: if_splits)

lemma on_read_report:
  assumes "report_ok B2T a" "held a = Some (mess, lastS)"
  shows "report_ok B2T (on_read B2T mess lastS a)"
proof -
  have b: "batch a = mess" using assms(2) by (simp add: batch_def)
  have t: "tick_of B2T (shown a @ mess) (firstTic a)" "tick_of B2T (shown a @ mess) (fTic a)"
    "tick_of B2T (shown a @ mess) (lastTic a)" "tick_of B2T (shown a @ mess) (lTic a)"
    using assms(1) b by (auto simp: report_ok_def)
  have new: "tick_of B2T (shown a @ mess) (B2T (Data (hd mess)))"
    "tick_of B2T (shown a @ mess) (B2T (Data (last mess)))" if "mess \<noteq> []"
    using that by (auto simp: tick_of_def)
  have ne: "at_stmt a \<noteq> SetLastSeq \<longrightarrow> mess \<noteq> []" using assms(1) b by (simp add: report_ok_def)
  have l: "last_ok B2T a" and f: "first_ok B2T a" using assms(1) by (simp_all add: report_ok_def)
  have "last_ok B2T (on_read B2T mess lastS a)"
    using l ne b assms(2) by (cases "at_stmt a") (simp_all add: on_read_def last_ok_def batch_def)
  moreover have "first_ok B2T (on_read B2T mess lastS a)"
    using f ne b assms(2) by (cases "at_stmt a") (auto simp: on_read_def first_ok_def batch_def hd_append)
  moreover have "\<forall>t \<in> {firstTic x, fTic x, lastTic x, lTic x}. tick_of B2T (shown x @ batch x) t"
    if "x = on_read B2T mess lastS a" for x
    using t new ne b assms(2) that
    by (cases "at_stmt a"; cases "mess = []") (simp_all add: on_read_def batch_def)
  moreover have "at_stmt (on_read B2T mess lastS a) \<noteq> SetLastSeq \<longrightarrow> batch (on_read B2T mess lastS a) \<noteq> []"
    using ne assms(2) by (cases "at_stmt a") (simp_all add: on_read_def batch_def)
  ultimately show ?thesis unfolding report_ok_def by blast
qed

lemma on_read_world [simp]: "world (on_read B2T mess lastS a) = world a"
  by (simp add: on_read_def split: read_stmt.split)

lemma on_read_seen:
  assumes "held a = Some (mess, lastS)"
  shows "shown (on_read B2T mess lastS a) @ batch (on_read B2T mess lastS a) = shown a @ batch a"
  using assms by (auto simp: on_read_def batch_def split: read_stmt.split)

lemma on_read_held: "held (on_read B2T mess lastS a) \<noteq> None \<Longrightarrow> held a \<noteq> None"
  by (auto simp: on_read_def split: read_stmt.splits if_splits)

lemma cmd_step_inv:
  assumes step: "cmd_step B2T waits (genuine_dgram src L) a b" and inv: "cmd_inv B2T src s0 L a"
    and L: "L < 18446744073709551616"
  shows "cmd_inv B2T src s0 L b"
  using step
proof cases
  case (library t)
  from sys_step_inv [OF library(2) _ _ L, of src s0] inv library report_ok_cong [of b a] show ?thesis
    by (simp add: cmd_inv_def)
next
  case (read_called t)
  from sys_step_inv [OF read_called(3) _ _ L, of src s0] inv read_called
    report_ok_cong [of b a] show ?thesis
    by (simp add: cmd_inv_def)
next
  case (read_returned u)
  let ?t = "(world a)\<lparr>client := read_check u (client (world a)), taken := None,
    handedOut := handedOut (world a) @ opt_list (fst u)\<rparr>"
  have "sys_step (genuine_dgram src L) (world a) ?t" by (rule sys_step.reader_check [OF read_returned(2)])
  from sys_step_inv [OF this _ _ L, of src s0] inv have t: "sys_inv src s0 L ?t" by (simp add: cmd_inv_def)
  have h: "held a = None" using inv read_returned(2) by (cases "held a") (auto simp: cmd_inv_def)
  then have idle: "at_stmt a = SetLastSeq" "batch a = []"
    using inv by (auto simp: cmd_inv_def report_ok_def batch_def)
  have bt: "batch b = opt_list (fst u)" unfolding read_returned(1) batch_def by (cases "fst u") auto
  have "report_ok B2T a" using inv by (simp add: cmd_inv_def)
  then have l: "last_ok B2T a" and f: "first_ok B2T a" and
    tk: "\<forall>t \<in> {firstTic a, fTic a, lastTic a, lTic a}. tick_of B2T (shown a @ batch a) t"
    unfolding report_ok_def by blast+
  have sel: "at_stmt b = SetLastSeq" "shown b = shown a" "firstTic b = firstTic a" "fTic b = fTic a"
    "lastTic b = lastTic a" "lTic b = lTic a" using idle(1) by (simp_all add: read_returned(1))
  have "\<forall>t \<in> {firstTic b, fTic b, lastTic b, lTic b}. tick_of B2T (shown b @ batch b) t"
    unfolding sel bt using tk idle(2) tick_of_mono [of B2T "shown a" _ "shown a @ opt_list (fst u)"] by auto
  moreover have "last_ok B2T b" "first_ok B2T b" using l f idle by (simp_all add: last_ok_def first_ok_def sel)
  ultimately have "report_ok B2T b" using sel(1) unfolding report_ok_def by blast
  then show ?thesis using inv t idle(2) bt by (simp add: cmd_inv_def read_returned(1))
next
  case (reader mess lastS)
  have "report_ok B2T b" using inv on_read_report [OF _ reader(2)] unfolding reader(1) cmd_inv_def by blast
  moreover have "shown b @ batch b = shown a @ batch a" unfolding reader(1) by (rule on_read_seen [OF reader(2)])
  ultimately show ?thesis using inv reader on_read_held [of B2T mess lastS a] by (auto simp: cmd_inv_def)
next
  case (tick now out)
  from main_tick_inv [OF inv tick(2)] show ?thesis .
next
  case (signal sg ec)
  with inv cmd_inv_upd(1) [OF inv] show ?thesis by (auto simp: on_signal_def split: if_splits)
qed (use inv cmd_inv_upd(2) in auto)

interpretation command:
  step_system "cmd_start s0 L" "cmd_step B2T waits (genuine_dgram src L)"
    "\<lambda>a. L < 18446744073709551616 \<and> cmd_inv B2T src (unat s0) L a"
  for s0 L B2T waits src
proof
  fix a :: "'a app" assume "cmd_start s0 L a"
  then show "L < 18446744073709551616 \<and> cmd_inv B2T src (unat s0) L a"
  proof -
    from \<open>cmd_start s0 L a\<close> obtain s where s: "client_start s0 L s" "a = start_app s"
      by (auto simp: cmd_start_def)
    then have "sys_inv src (unat s0) L s" using started_inv by (auto simp: client_start_def)
    moreover have "handedOut s = []" using s(1) by (auto simp: client_start_def started_def)
    ultimately show ?thesis using s by (simp add: client_start_def start_app_def cmd_inv_def report_defs tick_of_def)
  qed
qed (use cmd_step_inv in blast)

subsection \<open>Properties\<close>

lemma hd_last_upt:
  assumes "xs = map f [k..<k + length xs]" "xs \<noteq> []"
  shows "hd xs = f k \<and> last xs = f (k + length xs - 1)"
proof -
  have k: "k < k + length xs" using assms(2) by simp
  then have "[k..<k + length xs] \<noteq> []" by simp
  from hd_map [OF this, of f] last_map [OF this, of f] k show ?thesis
    unfolding assms(1) [symmetric] by simp
qed

text \<open>
  C15. What the command reports. Under every interleaving of its goroutines, the signals and the
  network: the messages \<open>Read\<close> has returned to its reader are the stream from the first sequence
  number on, without gap or repetition; at every moment \<open>fTic\<close> and \<open>lTic\<close>, which the log lines
  print, are zero ticks or decoded messages among these; and whenever the reader is between two
  batches, the tick it keeps as the last, and that the end of \<open>main\<close> would log, is the decoded
  last message the reader has dealt with, and the first tick is the decoded first message of
  the stream when that can be decoded. (The program may end in the middle of a batch: that case
  is the race below.)
\<close>

theorem reported_messages:
  assumes "reachable (cmd_start s0 L) (cmd_step B2T waits (genuine_dgram src L)) a"
  shows "handedOut (world a) = shown a @ batch a \<and>
    handedOut (world a) = map src [unat s0..<unat s0 + length (handedOut (world a))] \<and>
    tick_of B2T (handedOut (world a)) (fTic a) \<and> tick_of B2T (handedOut (world a)) (lTic a) \<and>
    (held a = None \<and> shown a \<noteq> [] \<longrightarrow>
      lastTic a = B2T (Data (src (unat s0 + length (shown a) - 1))) \<and>
      (lastTic a \<noteq> None \<longrightarrow> hd (main_end a) = LastMessage (lastTic a)) \<and>
      (\<forall>t. B2T (Data (src (unat s0))) = Some t \<longrightarrow> firstTic a = Some t \<and> fTic a = Some t))"
proof -
  let ?s = "world a" and ?h = "handedOut (world a)"
  have inv: "cmd_inv B2T src (unat s0) L a" using command.reachable_inv [OF assms] by blast
  then have "reasm_inv src (unat s0) L (received ?s) (out_of ?s) (opt_list (flying ?s)) (client ?s)"
    by (intro sys_invD) (simp add: cmd_inv_def)
  then have "out_of ?s @ pending (client ?s) @ opt_list (flying ?s) = map src [unat s0..<unat (seqNo (client ?s))]"
    and le: "unat s0 \<le> unat (seqNo (client ?s))" by (auto simp: reasm_inv_def)
  then obtain rest where rest: "?h @ rest = map src [unat s0..<unat (seqNo (client ?s))]"
    by (auto simp: out_of_def)
  then have "length ?h \<le> unat (seqNo (client ?s)) - unat s0"
    by (metis le_add1 length_append length_map length_upt)
  moreover have "?h = take (length ?h) (map src [unat s0..<unat (seqNo (client ?s))])"
    unfolding rest [symmetric] by simp
  ultimately have eq: "?h = map src [unat s0..<unat s0 + length ?h]"
    using le by (simp add: take_map)
  have seen: "?h = shown a @ batch a" and rep: "report_ok B2T a" using inv by (auto simp: cmd_inv_def)
  have ticks: "tick_of B2T ?h (fTic a)" "tick_of B2T ?h (lTic a)" using rep seen by (auto simp: report_ok_def)
  have "lastTic a = B2T (Data (src (unat s0 + length (shown a) - 1))) \<and>
      (lastTic a \<noteq> None \<longrightarrow> hd (main_end a) = LastMessage (lastTic a)) \<and>
      (\<forall>t. B2T (Data (src (unat s0))) = Some t \<longrightarrow> firstTic a = Some t \<and> fTic a = Some t)"
    if "held a = None" "shown a \<noteq> []"
  proof -
    have idle: "batch a = []" "at_stmt a = SetLastSeq" using rep that(1) by (auto simp: report_ok_def batch_def)
    then have "shown a = map src [unat s0..<unat s0 + length (shown a)]" using eq seen by simp
    from hd_last_upt [OF this that(2)] rep idle that(2) show ?thesis
      by (auto simp: report_ok_def last_ok_def first_ok_def main_end_def client_LastSeq_def)
  qed
  with eq seen ticks show ?thesis by blast
qed

lemma add64_id: "- 9223372036854775808 \<le> x + y \<Longrightarrow> x + y < 9223372036854775808 \<Longrightarrow> add64 x y = x + y"
  by (simp add: add64_def signed_of_int signed_take_bit_int_eq_self del: of_int_add)

lemma gotBuff_LastRecv:
  assumes "gotBuff now buff n c = Some (Ok (), c')"
  shows "LastRecv c' = time_unix now \<and> Running c' = Running c"
  using assms
  by (auto simp: gotBuff_def check_head_def send_ch_def Let_def split: if_splits outcome.splits option.splits)

lemma main_tick_running:
  "Running (client (world (snd (main_tick waits now a)))) \<longleftrightarrow>
   Running (client (world a)) \<and> \<not> (0 < waits \<and> add64 (LastRecv (client (world a))) waits < time_unix now)"
  by (simp add: main_tick_def Let_def upd_client_def stop_def)

text \<open>
  C34. The watchdog: after a datagram was accepted at time \<open>now\<close>, a tick at \<open>now'\<close> leaves the
  client running exactly until \<open>waits\<close> seconds have passed; a client that goes on hearing
  datagrams is never stopped by it, one that hears nothing is stopped by the next tick.
\<close>

theorem watchdog_stops_silent_client:
  assumes "gotBuff now buff n c = Some (Ok (), client (world a))" "Running c" "0 < waits"
    and "0 \<le> time_unix now" "time_unix now + waits < 9223372036854775808"
  shows "Running (client (world (snd (main_tick waits now' a)))) \<longleftrightarrow> time_unix now' \<le> time_unix now + waits"
proof -
  have "LastRecv (client (world a)) = time_unix now" "Running (client (world a))"
    using gotBuff_LastRecv [OF assms(1)] assms(2) by auto
  moreover have "add64 (time_unix now) waits = time_unix now + waits" using assms(3-5) by (intro add64_id) auto
  ultimately show ?thesis using assms(3) by (auto simp: main_tick_running)
qed

theorem watchdog_stops_silent_client_witness:
  "\<exists>a :: byte app. Running (client (world (snd (main_tick 30 62135597830000000000 a)))) \<and>
    \<not> Running (client (world (snd (main_tick 30 62135597831000000000 a))))"
proof -
  let ?c = "client demo_start" and ?now = "62135597800000000000"
  have "map_option (\<lambda>(r, c). (r, Running c)) (gotBuff ?now (demo_head 3 255 255) 20 ?c) = Some (Ok (), True)"
    "Running ?c" by code_simp+
  then obtain c where c: "gotBuff ?now (demo_head 3 255 255) 20 ?c = Some (Ok (), c)" by auto
  let ?a = "start_app (demo_start\<lparr>client := c\<rparr>) :: byte app"
  have a: "gotBuff ?now (demo_head 3 255 255) 20 ?c = Some (Ok (), client (world ?a))"
    using c by (simp add: start_app_def)
  note w = watchdog_stops_silent_client [OF a \<open>Running ?c\<close>, of 30]
  have "time_unix ?now = 1000" by (simp add: time_unix_def)
  moreover have "time_unix 62135597830000000000 = 1030" "time_unix 62135597831000000000 = 1031"
    by (simp_all add: time_unix_def)
  ultimately have "Running (client (world (snd (main_tick 30 62135597830000000000 ?a))))"
    "\<not> Running (client (world (snd (main_tick 30 62135597831000000000 ?a))))"
    by (simp_all add: w)
  then show ?thesis by blast
qed

subsection \<open>A run of the command\<close>

lemma exec_keeps:
  "exec dial wire act s = Some t \<Longrightarrow> act \<noteq> ATake \<Longrightarrow> act \<noteq> ACheck \<Longrightarrow>
   taken t = taken s \<and> handedOut t = handedOut s"
  by (cases act) (auto simp: Let_def split: if_splits outcome.splits list.splits prod.splits front.splits)

lemma run_library:
  assumes "run dial wire as (world a) = Some t" "list_all (\<lambda>act. act \<noteq> ATake \<and> act \<noteq> ACheck) as"
    "reachable init (cmd_step B2T waits wire) a"
  shows "reachable init (cmd_step B2T waits wire) (a\<lparr>world := t\<rparr>)"
  using assms
proof (induction as arbitrary: a)
  case (Cons act as)
  then obtain s where s: "exec dial wire act (world a) = Some s" "run dial wire as s = Some t"
    by (auto split: option.splits)
  have "cmd_step B2T waits wire a (a\<lparr>world := s\<rparr>)"
    using exec_sound [OF s(1)] exec_keeps [OF s(1)] Cons.prems(2) by (intro cmd_step.library) auto
  with Cons.prems(3) have "reachable init (cmd_step B2T waits wire) (a\<lparr>world := s\<rparr>)" by (rule reach_step)
  from Cons.IH [OF _ _ this] s(2) Cons.prems(2) show ?case by simp
qed auto

definition demo_b2t :: "byte list \<Rightarrow> byte option" where
  "demo_b2t b = (if b = [] then None else Some (hd b))"

text \<open>A call of \<open>Read\<close> that finds messages, up to its return.\<close>

lemma read_call:
  assumes "reachable init (cmd_step B2T waits wire) a" "held a = None" "taken (world a) = None"
    "Running (client (world a))" "ready (client (world a)) = Some r"
  shows "\<exists>s. reachable init (cmd_step B2T waits wire) (a\<lparr>world := s, held := Some (r, lastSeq (client (world a)))\<rparr>) \<and>
    client s = read_check (Some r, lastSeq (client (world a))) ((client (world a))\<lparr>ready := None\<rparr>) \<and>
    handedOut s = handedOut (world a) @ r"
proof -
  let ?u = "(Some r, lastSeq (client (world a)))"
  define t where "t = (world a)\<lparr>client := (client (world a))\<lparr>ready := None\<rparr>, taken := Some ?u\<rparr>"
  have "sys_step wire (world a) t"
    unfolding t_def by (rule sys_step.reader_take) (simp_all add: assms read_take_def)
  then have "cmd_step B2T waits wire a (a\<lparr>world := t\<rparr>)"
    by (rule cmd_step.read_called [OF assms(2)]) (simp_all add: assms t_def)
  with assms(1) have r: "reachable init (cmd_step B2T waits wire) (a\<lparr>world := t\<rparr>)" by (rule reach_step)
  have u: "taken (world (a\<lparr>world := t\<rparr>)) = Some ?u" by (simp add: t_def)
  show ?thesis
    by (rule exI [of _ "t\<lparr>client := read_check ?u (client t), taken := None, handedOut := handedOut t @ r\<rparr>"])
      (use reach_step [OF r cmd_step.read_returned [OF u]] in \<open>simp add: t_def\<close>)
qed

text \<open>
  The session of two messages: the library has them ready, the reader calls \<open>Read\<close>, which
  takes them and stops the client.
\<close>

lemma demo_command:
  "\<exists>a. reachable (cmd_start 1 3) (cmd_step demo_b2t 30 (genuine_dgram demo_src 3)) a \<and>
    \<not> Running (client (world a)) \<and> bDone (client (world a)) \<and> shown a = [] \<and> lastTic a = None \<and>
    lTic a = None \<and> at_stmt a = SetLastSeq \<and> held a = Some ([demo_src 1, demo_src 2], 2) \<and> handedOut (world a) = [demo_src 1, demo_src 2]"
proof -
  let ?step = "cmd_step demo_b2t 30 (genuine_dgram demo_src 3)" and ?a0 = "start_app demo_start :: byte app"
  obtain s where s: "demo_run demo_unread = Some s" "bDone (client s)" "Running (client s)" "taken s = None"
      "ready (client s) = Some [demo_src 1, demo_src 2]" "lastSeq (client s) = 2" "seqNo (client s) = 3" "handedOut s = []"
    using demo_unread_run by blast
  have "reachable (cmd_start 1 3) ?step ?a0"
    by (rule reach_init) (use demo_started in \<open>auto simp: cmd_start_def\<close>)
  moreover have "run (\<lambda>a. False) (genuine_dgram demo_src 3) demo_unread (world ?a0) = Some s"
    using s(1) by (simp only: demo_run_def start_app_def app.simps)
  moreover have "list_all (\<lambda>act. act \<noteq> ATake \<and> act \<noteq> ACheck) demo_unread" by (simp add: demo_unread_def)
  ultimately have "reachable (cmd_start 1 3) ?step (?a0\<lparr>world := s\<rparr>)" using run_library by blast
  from read_call [OF this, of "[demo_src 1, demo_src 2]"] s(3-6)
  obtain t where t: "reachable (cmd_start 1 3) ?step (?a0\<lparr>world := t, held := Some ([demo_src 1, demo_src 2], 2)\<rparr>)"
      "client t = read_check (Some [demo_src 1, demo_src 2], 2) ((client s)\<lparr>ready := None\<rparr>)"
      "handedOut t = [demo_src 1, demo_src 2]"
    by (auto simp: start_app_def s(8))
  have "\<not> Running (client t)" "bDone (client t)" using t(2) s(2,7) by (simp_all add: read_check_def)
  with t(1,3) show ?thesis by (intro exI conjI) (auto simp: start_app_def)
qed

text \<open>The reader's five statements on a batch that is not empty, up to the last one.\<close>

lemma reader_statements:
  assumes "reachable init (cmd_step B2T waits wire) a" "held a = Some (mess, q)" "mess \<noteq> []"
    "at_stmt a = SetLastSeq"
  shows "\<exists>b. reachable init (cmd_step B2T waits wire) b \<and> world b = world a \<and> held b = Some (mess, q) \<and>
    at_stmt b = CopyLast \<and> shown b = shown a \<and> lTic b = lTic a \<and> lastTic b = B2T (Data (last mess))"
proof -
  let ?R = "reachable init (cmd_step B2T waits wire)" and ?f = "on_read B2T mess q"
  have step: "?R (?f x)" if "?R x" "held x = Some (mess, q)" for x
    using that by (meson reach_step cmd_step.reader)
  have h: "held (?f x) = Some (mess, q)" if "held x = Some (mess, q)" "at_stmt x \<noteq> CopyLast" for x
    using that assms(3) by (auto simp: on_read_def split: read_stmt.split)
  define a1 where "a1 = ?f a"
  have a1: "?R a1" "held a1 = Some (mess, q)" using step h assms(1,2,4) by (simp_all add: a1_def)
  then have a1: "?R a1" "held a1 = Some (mess, q)" "at_stmt a1 = SetFirst" "firstTic a1 = firstTic a"
    "shown a1 = shown a" "lTic a1 = lTic a" using assms(3,4) by (simp_all add: a1_def on_read_def)
  obtain a2 where a2: "?R a2" "held a2 = Some (mess, q)" "at_stmt a2 = SetLast" "shown a2 = shown a"
      "lTic a2 = lTic a" "world a2 = world a1"
  proof (cases "firstTic a = None")
    case True
    let ?a = "?f (?f a1)"
    have "at_stmt (?f a1) = CopyFirst" using a1 True by (simp add: on_read_def)
    moreover have "at_stmt ?a = SetLast" "shown ?a = shown a" "lTic ?a = lTic a" using a1 True by (simp_all add: on_read_def)
    moreover have "?R ?a" "held ?a = Some (mess, q)" using a1 calculation(1) step h by auto
    ultimately show ?thesis using that [of ?a] by simp
  next
    case False
    then have "at_stmt (?f a1) = SetLast" "shown (?f a1) = shown a" "lTic (?f a1) = lTic a"
      using a1 by (simp_all add: on_read_def)
    moreover have "?R (?f a1)" "held (?f a1) = Some (mess, q)" using a1 step h by auto
    ultimately show ?thesis using that [of "?f a1"] by simp
  qed
  have "?R (?f a2)" "held (?f a2) = Some (mess, q)" using a2 step h by auto
  moreover have "at_stmt (?f a2) = CopyLast" "shown (?f a2) = shown a" "lTic (?f a2) = lTic a"
    "lastTic (?f a2) = B2T (Data (last mess))" using a2 by (simp_all add: on_read_def)
  moreover have "world (?f a2) = world a" using a2(6) by (simp add: a1_def)
  ultimately show ?thesis by blast
qed

theorem reported_messages_witness:
  "\<exists>a. reachable (cmd_start 1 3) (cmd_step demo_b2t 30 (genuine_dgram demo_src 3)) a \<and>
    shown a = [demo_src 1, demo_src 2] \<and> firstTic a = Some 1 \<and> lastTic a = Some 2 \<and>
    hd (main_end a) = LastMessage (Some 2)"
proof -
  let ?step = "cmd_step demo_b2t 30 (genuine_dgram demo_src 3)"
  obtain a q where a: "reachable (cmd_start 1 3) ?step a" "shown a = []" "at_stmt a = SetLastSeq"
      "held a = Some ([demo_src 1, demo_src 2], q)"
    using demo_command by blast
  obtain b where b: "reachable (cmd_start 1 3) ?step b" "held b = Some ([demo_src 1, demo_src 2], q)"
      "at_stmt b = CopyLast" "shown b = []"
    using reader_statements [OF a(1,4) _ a(3)] a(2) by auto
  define c where "c = on_read demo_b2t [demo_src 1, demo_src 2] q b"
  have r: "reachable (cmd_start 1 3) ?step c"
    using reach_step [OF b(1) cmd_step.reader [OF b(2)]] by (simp add: c_def)
  have sh: "shown c = [demo_src 1, demo_src 2]" "held c = None" using b by (simp_all add: c_def on_read_def)
  have "unat (1 :: u64) + length (shown c) - 1 = 2" using sh(1) by simp
  with conjunct2 [OF conjunct2 [OF conjunct2 [OF conjunct2 [OF reported_messages [OF r]]]]] sh
  have c: "lastTic c = demo_b2t (Data (demo_src 2))"
    "lastTic c \<noteq> None \<longrightarrow> hd (main_end c) = LastMessage (lastTic c)"
    "\<forall>t. demo_b2t (Data (demo_src 1)) = Some t \<longrightarrow> firstTic c = Some t" by (auto simp: numeral_2_eq_2)
  have "demo_b2t (Data (demo_src 1)) = Some 1" "demo_b2t (Data (demo_src 2)) = Some 2" by code_simp+
  with c r sh(1) show ?thesis by auto
qed

text \<open>
  The end of the program races with its reader: \<open>Read\<close> stops the client before it returns
  the last messages, so the main loop can end while the reader still deals with them. The command
  then reports no last message, or an old one, although \<open>Read\<close> has returned the whole session;
  and when it ends between \<open>lastTic = ...\<close> and \<open>lTic = *lastTic\<close>, it reports a zero tick as the
  last message.
\<close>

theorem exit_races_reader:
  "\<exists>a b. reachable (cmd_start 1 3) (cmd_step demo_b2t 30 (genuine_dgram demo_src 3)) a \<and>
    \<not> Running (client (world a)) \<and> bDone (client (world a)) \<and>
    handedOut (world a) = [demo_src 1, demo_src 2] \<and> (\<forall>t. LastMessage t \<notin> set (main_end a)) \<and>
    reachable (cmd_start 1 3) (cmd_step demo_b2t 30 (genuine_dgram demo_src 3)) b \<and>
    world b = world a \<and> lastTic b = Some 2 \<and> hd (main_end b) = LastMessage None"
proof -
  obtain a q where a: "reachable (cmd_start 1 3) (cmd_step demo_b2t 30 (genuine_dgram demo_src 3)) a"
      "\<not> Running (client (world a))" "bDone (client (world a))" "lastTic a = None" "lTic a = None"
      "at_stmt a = SetLastSeq" "held a = Some ([demo_src 1, demo_src 2], q)"
      "handedOut (world a) = [demo_src 1, demo_src 2]"
    using demo_command by blast
  from reader_statements [OF a(1,7) _ a(6)] obtain b where
    b: "reachable (cmd_start 1 3) (cmd_step demo_b2t 30 (genuine_dgram demo_src 3)) b" "world b = world a"
      "lTic b = None" "lastTic b = demo_b2t (Data (demo_src 2))"
    using a(5) by auto
  have "demo_b2t (Data (demo_src 2)) = Some 2" by code_simp
  with a b show ?thesis
    by (intro exI [of _ a] exI [of _ b]) (simp add: main_end_def client_LastSeq_def)
qed

end
