(* ===== verification/Tx_Writers.thy ===== *)
theory Tx_Writers
  imports Ring_Lemmas Step_System
begin

section \<open>Several writers on one transmit ring\<close>

text \<open>
  \<open>CopyToBuffer\<close> as the steps between its atomic operations, so that several goroutines can
  write to the ring at the same time: the load and the compare-and-swap of \<open>txIndex\<close>, the wait
  for the frame, the compare-and-swap of its flag \<open>mb\<close>, the copy, the increment of
  \<open>txWritten\<close>, and the store of \<open>txWrittenIndex\<close>. Writer \<open>g\<close> has its own data; where it is in
  the code is its program counter. The kernel may change the status of frames at any time.

  Shown are that the writers never share a frame and their data is never overwritten, and
  that a writer that runs alone is \<open>CopyToBuffer\<close>; and that \<open>FlushFrames\<close>, which takes the
  written frames to start at the frame of the writer that finished first, is wrong about them.
\<close>

subsection \<open>Program counters\<close>

datatype wpc =
    Idle
  | Loaded nat
  | Waiting nat
  | Locking nat
  | Copying nat
  | Counting nat
  | Publishing nat
  | Written nat
  | Failed go_error

record tx_sys =
  ring :: ZSocket
  wpcs :: "nat \<Rightarrow> wpc"

text \<open>The frame a writer has the flag of, and the frame it has filled.\<close>

fun holds :: "wpc \<Rightarrow> nat option" where
  "holds (Copying i) = Some i"
| "holds (Counting i) = Some i"
| "holds (Publishing i) = Some i"
| "holds (Written i) = Some i"
| "holds _ = None"

fun filled :: "wpc \<Rightarrow> nat option" where
  "filled (Counting i) = Some i"
| "filled (Publishing i) = Some i"
| "filled (Written i) = Some i"
| "filled _ = None"

fun counted :: "wpc \<Rightarrow> bool" where
  "counted (Publishing i) = True"
| "counted (Written i) = True"
| "counted _ = False"

fun aims :: "wpc \<Rightarrow> nat option" where
  "aims (Waiting i) = Some i"
| "aims (Locking i) = Some i"
| "aims _ = None"

subsection \<open>Steps of a writer\<close>

text \<open>
  One step of the code of a writer with data \<open>buf\<close> and length \<open>l\<close>: the ring and the program
  counter after it, \<open>None\<close> when it can not move (it has returned, or waits for the flag).
  \<open>ans\<close> is the answer of \<open>Poll\<close> when it polls. \<open>free_step\<close> has the steps of \<open>getFreeTx\<close>,
  \<open>wstep\<close> those of \<open>CopyToBuffer\<close> around it.
\<close>

definition free_step :: "poll_answer \<Rightarrow> wpc \<Rightarrow> ZSocket \<Rightarrow> (wpc \<times> ZSocket) option" where
  "free_step ans pc zs =
     (case pc of
        Idle \<Rightarrow>
          if txWritten zs = frameNum zs then Some (Failed (ErrText ''the tx ring buffer is full''), zs)
          else Some (Loaded (txIndex zs), zs)
      | Loaded i \<Rightarrow>
          if txIndex zs = i then Some (Waiting i, zs\<lparr>txIndex := (i + 1) mod frameNum zs\<rparr>)
          else Some (Loaded (txIndex zs), zs)
      | Waiting i \<Rightarrow>
          if txReady (txFrames zs ! i) then Some (Locking i, zs)
          else
            let zs1 = zs\<lparr>statPolls := statPolls zs + 1\<rparr>
            in (case ans of
                  PollErr e \<Rightarrow> Some (Failed e, zs1)
                | PollOk k \<Rightarrow> Some (Waiting i, zs1\<lparr>txFrames := kernel_step k (txFrames zs1)\<rparr>))
      | Locking i \<Rightarrow>
          (case txMBReady (txFrames zs ! i) of
             (True, rf) \<Rightarrow> Some (Copying i, zs\<lparr>txFrames := (txFrames zs)[i := rf]\<rparr>)
           | (False, rf) \<Rightarrow> None)
      | _ \<Rightarrow> None)"

definition wstep ::
  "copy_fun \<Rightarrow> byte list \<times> u16 \<Rightarrow> poll_answer \<Rightarrow> wpc \<Rightarrow> ZSocket \<Rightarrow> (wpc \<times> ZSocket) option" where
  "wstep copyf job ans pc zs =
     (case pc of
        Idle \<Rightarrow>
          if \<not> txEnabled zs then Some (Failed (ErrText ''the TX ring is not enabled on this socket''), zs)
          else free_step ans pc zs
      | Loaded i \<Rightarrow> free_step ans pc zs
      | Waiting i \<Rightarrow> free_step ans pc zs
      | Locking i \<Rightarrow> free_step ans pc zs
      | Copying i \<Rightarrow>
          (case copyf (txStart (txFrames zs ! i)) (fst job) (uint (snd job)) of
             Ok (dst, cL) \<Rightarrow>
               let rf = setTpLens cL ((txFrames zs ! i)\<lparr>txStart := dst\<rparr>);
                   zs2 = zs\<lparr>txFrames := (txFrames zs)[i := rf]\<rparr>
               in Some (Counting i, zs2\<lparr>nPacketSent := nPacketSent zs2 + 1\<rparr>)
           | _ \<Rightarrow> None)
      | Counting i \<Rightarrow>
          let zs1 = zs\<lparr>txWritten := txWritten zs + 1\<rparr>
          in Some (if txWritten zs1 = 1 then Publishing i else Written i, zs1)
      | Publishing i \<Rightarrow> Some (Written i, zs\<lparr>txWrittenIndex := int i\<rparr>)
      | Written i \<Rightarrow> None
      | Failed e \<Rightarrow> None)"

lemmas wstep_defs = wstep_def free_step_def

inductive tx_step :: "copy_fun \<Rightarrow> (nat \<Rightarrow> byte list \<times> u16) \<Rightarrow> nat \<Rightarrow> tx_sys \<Rightarrow> tx_sys \<Rightarrow> bool"
  for copyf :: copy_fun and job :: "nat \<Rightarrow> byte list \<times> u16" and n :: nat where
  writer: "g < n \<Longrightarrow> wstep copyf (job g) ans (wpcs s g) (ring s) = Some (pc, zs) \<Longrightarrow>
     tx_step copyf job n s (s\<lparr>ring := zs, wpcs := (wpcs s)(g := pc)\<rparr>)"
| kernel: "tx_step copyf job n s (s\<lparr>ring := (ring s)\<lparr>txFrames := kernel_step k (txFrames (ring s))\<rparr>\<rparr>)"

text \<open>The writers start together on a ring with nothing pending.\<close>

definition tx_start :: "ZSocket \<Rightarrow> tx_sys \<Rightarrow> bool" where
  "tx_start zs0 s \<longleftrightarrow> ring s = zs0 \<and> (\<forall>g. wpcs s g = Idle) \<and> ring_ok zs0 \<and> txWritten zs0 = 0"

subsection \<open>What a step changes\<close>

definition same_cell :: "ringFrame \<Rightarrow> ringFrame \<Rightarrow> bool" where
  "same_cell rf rf' \<longleftrightarrow> mb rf' = mb rf \<and> txStart rf' = txStart rf \<and> tp_len rf' = tp_len rf \<and>
     tp_snaplen rf' = tp_snaplen rf"

lemma same_cell_refl [simp]: "same_cell rf rf"
  by (simp add: same_cell_def)

lemma kernel_step_cell: "j < length frs \<Longrightarrow> same_cell (frs ! j) (kernel_step k frs ! j)"
  by (simp add: same_cell_def kernel_step_nth)

text \<open>A frame carries the data of a writer: what its copy function wrote, with the length.\<close>

definition carries :: "copy_fun \<Rightarrow> byte list \<times> u16 \<Rightarrow> ringFrame \<Rightarrow> bool" where
  "carries copyf job rf \<longleftrightarrow>
     (\<exists>old cL. copyf old (fst job) (uint (snd job)) = Ok (txStart rf, cL) \<and>
        tp_len rf = ucast cL \<and> tp_snaplen rf = ucast cL)"

lemma carries_cell: "same_cell rf rf' \<Longrightarrow> carries copyf job rf \<Longrightarrow> carries copyf job rf'"
  by (simp add: carries_def same_cell_def)

lemma wstep_shape:
  assumes "wstep copyf job ans pc zs = Some (pc', zs')"
  shows "frameNum zs' = frameNum zs \<and> length (txFrames zs') = length (txFrames zs) \<and>
    (txIndex zs < frameNum zs \<longrightarrow> txIndex zs' < frameNum zs) \<and>
    (\<forall>i. aims pc' = Some i \<longrightarrow> aims pc = Some i \<or> i = txIndex zs) \<and>
    txWritten zs' = txWritten zs + (if counted pc' \<and> \<not> counted pc then 1 else 0) \<and>
    (counted pc \<longrightarrow> counted pc')"
  using assms
  by (cases pc) (auto simp: wstep_defs Let_def split: if_splits poll_answer.splits prod.splits bool.splits outcome.splits)

lemma wstep_cells:
  assumes "wstep copyf job ans pc zs = Some (pc', zs')" "j < length (txFrames zs)" "holds pc \<noteq> Some j" "aims pc \<noteq> Some j"
  shows "same_cell (txFrames zs ! j) (txFrames zs' ! j)"
  using assms
  by (cases pc) (auto simp: wstep_defs Let_def kernel_step_cell
      split: if_splits poll_answer.splits prod.splits bool.splits outcome.splits)

lemma wstep_own:
  assumes "wstep copyf job ans pc zs = Some (pc', zs')" "aims pc = Some i \<or> holds pc = Some i"
    "i < length (txFrames zs)"
  shows "holds pc' = None \<and> same_cell (txFrames zs ! i) (txFrames zs' ! i) \<or>
    holds pc' = Some i \<and> mb (txFrames zs' ! i) = 1 \<and> (holds pc = None \<and> mb (txFrames zs ! i) = 0 \<or> holds pc = Some i) \<or>
    holds pc = Some i \<and> mb (txFrames zs ! i) \<noteq> 1"
  using assms
  by (cases pc) (auto simp: wstep_defs Let_def txMBReady_def setTpLens_def kernel_step_cell
      split: if_splits poll_answer.splits prod.splits bool.splits outcome.splits)

lemma wstep_holds:
  assumes "wstep copyf job ans pc zs = Some (pc', zs')"
  shows "holds pc' = holds pc \<or> holds pc = None \<and> holds pc' = aims pc"
  using assms
  by (cases pc) (auto simp: wstep_defs Let_def split: if_splits poll_answer.splits prod.splits bool.splits outcome.splits)

lemma wstep_filled:
  assumes "wstep copyf job ans pc zs = Some (pc', zs')" "filled pc' = Some i" "i < length (txFrames zs)"
    "filled pc = Some i \<Longrightarrow> carries copyf job (txFrames zs ! i)"
  shows "carries copyf job (txFrames zs' ! i)"
  using assms
  by (cases pc; auto simp: wstep_defs Let_def carries_def setTpLens_def
      split: if_splits poll_answer.splits prod.splits bool.splits outcome.splits; blast)

subsection \<open>The invariant\<close>

definition tx_inv :: "copy_fun \<Rightarrow> (nat \<Rightarrow> byte list \<times> u16) \<Rightarrow> nat \<Rightarrow> tx_sys \<Rightarrow> bool" where
  "tx_inv copyf job n s \<longleftrightarrow>
     length (txFrames (ring s)) = frameNum (ring s) \<and> txIndex (ring s) < frameNum (ring s) \<and>
     (\<forall>g i. aims (wpcs s g) = Some i \<or> holds (wpcs s g) = Some i \<longrightarrow> i < frameNum (ring s)) \<and>
     (\<forall>g i. holds (wpcs s g) = Some i \<longrightarrow> mb (txFrames (ring s) ! i) = 1) \<and>
     (\<forall>g h i. holds (wpcs s g) = Some i \<longrightarrow> holds (wpcs s h) = Some i \<longrightarrow> g = h) \<and>
     (\<forall>g i. filled (wpcs s g) = Some i \<longrightarrow> carries copyf (job g) (txFrames (ring s) ! i)) \<and>
     (\<forall>g. n \<le> g \<longrightarrow> wpcs s g = Idle) \<and>
     txWritten (ring s) = card {g. g < n \<and> counted (wpcs s g)}"

lemma filled_holds: "filled pc = Some i \<Longrightarrow> holds pc = Some i"
  by (cases pc) auto

lemma counted_update:
  fixes n :: nat
  assumes "g < n" "counted (f g) \<longrightarrow> counted pc"
  shows "card {h. h < n \<and> counted ((f(g := pc)) h)} =
    card {h. h < n \<and> counted (f h)} + (if counted pc \<and> \<not> counted (f g) then 1 else 0)"
proof (cases "counted pc \<and> \<not> counted (f g)")
  case True
  then have "{h. h < n \<and> counted ((f(g := pc)) h)} = insert g {h. h < n \<and> counted (f h)}"
    using assms by auto
  moreover have "g \<notin> {h. h < n \<and> counted (f h)}" using True by simp
  ultimately show ?thesis using True by simp
next
  case False
  then have "{h. h < n \<and> counted ((f(g := pc)) h)} = {h. h < n \<and> counted (f h)}" using assms by auto
  then show ?thesis using False by simp
qed

lemma writer_inv:
  assumes inv: "tx_inv copyf job n s" and g: "g < n"
    and step: "wstep copyf (job g) ans (wpcs s g) (ring s) = Some (pc, zs)"
  shows "tx_inv copyf job n (s\<lparr>ring := zs, wpcs := (wpcs s)(g := pc)\<rparr>)"
proof -
  let ?frs = "txFrames (ring s)" and ?frs' = "txFrames zs"
  note I = inv [unfolded tx_inv_def]
  note S = wstep_shape [OF step]
  have len: "length ?frs = frameNum (ring s)" using I by blast
  have range: "i < length ?frs" if "aims (wpcs s h) = Some i \<or> holds (wpcs s h) = Some i" for h i
    using that I len by auto
  have free: "mb (?frs ! i) = 0 \<or> holds (wpcs s g) = Some i" if "holds pc = Some i" for i
    using wstep_holds [OF step] that wstep_own [OF step, of i] range [of g i] by auto
  have other: "same_cell (?frs ! i) (?frs' ! i)" if h: "h \<noteq> g" "holds (wpcs s h) = Some i" for h i
  proof (cases "aims (wpcs s g) = Some i")
    case True
    have "mb (?frs ! i) = 1" using I h(2) by blast
    moreover have "holds (wpcs s g) = None" using True by (cases "wpcs s g") auto
    ultimately show ?thesis using wstep_own [OF step disjI1 [OF True]] range True by auto
  next
    case False
    have "holds (wpcs s g) \<noteq> Some i" using I h by blast
    with False show ?thesis using wstep_cells [OF step] range h(2) by blast
  qed
  have mine: "i < frameNum (ring s)" "mb (?frs' ! i) = 1" if "holds pc = Some i" for i
  proof -
    have a: "aims (wpcs s g) = Some i \<or> holds (wpcs s g) = Some i" using wstep_holds [OF step] that by auto
    then show "i < frameNum (ring s)" using range len by simp
    have "holds (wpcs s g) = Some i \<Longrightarrow> mb (?frs ! i) = 1" using I by blast
    with wstep_own [OF step a range [OF a]] that show "mb (?frs' ! i) = 1" by auto
  qed
  have marks: "mb (?frs' ! i) = 1" if "holds (((wpcs s)(g := pc)) h) = Some i" for h i
    using that mine(2) other [of h i] I by (cases "h = g") (auto simp: same_cell_def)
  have excl: "h = h'" if "holds (((wpcs s)(g := pc)) h) = Some i" "holds (((wpcs s)(g := pc)) h') = Some i" for h h' i
  proof -
    have "k = g" if "holds pc = Some i" "holds (wpcs s k) = Some i" for k
      using free [OF that(1)] that(2) I by fastforce
    with that I show ?thesis by (auto split: if_splits)
  qed
  have data: "carries copyf (job h) (?frs' ! i)" if "filled (((wpcs s)(g := pc)) h) = Some i" for h i
  proof (cases "h = g")
    case True
    then have "filled pc = Some i" using that by simp
    then show ?thesis
      unfolding True using wstep_filled [OF step] mine(1) filled_holds I len by auto
  next
    case False
    then have f: "filled (wpcs s h) = Some i" using that by simp
    then show ?thesis using carries_cell [OF other [OF False filled_holds [OF f]]] I by blast
  qed
  have bound: "i < frameNum (ring s)" if "aims (((wpcs s)(g := pc)) h) = Some i \<or> holds (((wpcs s)(g := pc)) h) = Some i" for h i
    using that S mine(1) I by (cases "h = g") auto
  have count: "txWritten zs = card {h. h < n \<and> counted (((wpcs s)(g := pc)) h)}"
    using counted_update [OF g, of "wpcs s" pc] S I by simp
  have rest: "((wpcs s)(g := pc)) h = Idle" if "n \<le> h" for h using that g I by simp
  have fn: "frameNum zs = frameNum (ring s)" "length ?frs' = frameNum zs" "txIndex zs < frameNum zs"
    using S I by simp_all
  have sel: "ring (s\<lparr>ring := zs, wpcs := (wpcs s)(g := pc)\<rparr>) = zs"
    "wpcs (s\<lparr>ring := zs, wpcs := (wpcs s)(g := pc)\<rparr>) = (wpcs s)(g := pc)" by simp_all
  show ?thesis
    unfolding tx_inv_def sel fn(1)
  proof (intro conjI allI impI)
    show "length ?frs' = frameNum (ring s)" "txIndex zs < frameNum (ring s)" using fn by simp_all
  qed (fact bound marks excl data rest count)+
qed

lemma kernel_inv:
  assumes "tx_inv copyf job n s"
  shows "tx_inv copyf job n (s\<lparr>ring := (ring s)\<lparr>txFrames := kernel_step k (txFrames (ring s))\<rparr>\<rparr>)"
proof -
  note I = assms [unfolded tx_inv_def]
  have c: "same_cell (txFrames (ring s) ! i) (kernel_step k (txFrames (ring s)) ! i)" if "holds (wpcs s g) = Some i" for g i
    using that I by (intro kernel_step_cell) auto
  have "mb (kernel_step k (txFrames (ring s)) ! i) = 1" if "holds (wpcs s g) = Some i" for g i
    using c [OF that] that I by (auto simp: same_cell_def)
  moreover have "carries copyf (job g) (kernel_step k (txFrames (ring s)) ! i)" if "filled (wpcs s g) = Some i" for g i
    using carries_cell [OF c [OF filled_holds [OF that]]] that I by blast
  ultimately show ?thesis using I by (simp add: tx_inv_def)
qed

interpretation writers:
  step_system "tx_start zs0" "tx_step copyf job n" "tx_inv copyf job n"
  for zs0 copyf job n
proof
  fix s assume "tx_start zs0 s"
  then show "tx_inv copyf job n s" by (auto simp: tx_start_def tx_inv_def ring_ok_def)
next
  fix s t assume "tx_inv copyf job n s" "tx_step copyf job n s t"
  then show "tx_inv copyf job n t" by (auto elim!: tx_step.cases intro: writer_inv kernel_inv)
qed

subsection \<open>A writer alone\<close>

definition at_pc :: "(nat \<Rightarrow> wpc) \<Rightarrow> wpc \<Rightarrow> ZSocket \<Rightarrow> tx_sys" where
  "at_pc f pc zs = \<lparr>ring = zs, wpcs = f(0 := pc)\<rparr>"

lemma solo_step:
  assumes "reachable init (tx_step copyf job n) (at_pc f pc zs)" "0 < n"
    "wstep copyf (job 0) ans pc zs = Some (pc', zs')"
  shows "reachable init (tx_step copyf job n) (at_pc f pc' zs')"
proof -
  have "tx_step copyf job n (at_pc f pc zs)
      ((at_pc f pc zs)\<lparr>ring := zs', wpcs := (wpcs (at_pc f pc zs))(0 := pc')\<rparr>)"
    by (rule tx_step.writer [OF assms(2), where ans = ans]) (simp add: at_pc_def assms(3))
  moreover have "(at_pc f pc zs)\<lparr>ring := zs', wpcs := (wpcs (at_pc f pc zs))(0 := pc')\<rparr> = at_pc f pc' zs'"
    by (simp add: at_pc_def)
  ultimately show ?thesis using assms(1) reach_step by metis
qed

lemma solo_wait:
  assumes "reachable init (tx_step copyf job n) (at_pc f (Waiting i) zs)" "0 < n"
    "wait_tx answers i zs = Some (Ok (), zs')"
  shows "reachable init (tx_step copyf job n) (at_pc f (Locking i) zs')"
  using assms
proof (induction answers arbitrary: zs)
  case Nil
  then have "txReady (txFrames zs ! i)" "zs' = zs" by (auto simp: wait_tx.simps [of "[]"] split: if_splits)
  then show ?case using solo_step [OF Nil.prems(1,2)] by (simp add: wstep_defs)
next
  case (Cons a as)
  show ?case
  proof (cases "txReady (txFrames zs ! i)")
    case True
    with Cons.prems(3) have "zs' = zs" by (auto simp: wait_tx.simps [of "a # as"])
    then show ?thesis using True solo_step [OF Cons.prems(1,2)] by (simp add: wstep_defs)
  next
    case False
    then obtain k where k: "a = PollOk k"
        "wait_tx as i (zs\<lparr>statPolls := statPolls zs + 1, txFrames := kernel_step k (txFrames zs)\<rparr>) = Some (Ok (), zs')"
      using Cons.prems(3) by (auto simp: wait_tx.simps [of "a # as"] Let_def split: poll_answer.splits)
    show ?thesis
      by (rule Cons.IH [OF solo_step [OF Cons.prems(1,2), where ans = a] Cons.prems(2) k(2)])
        (use False k(1) in \<open>simp add: wstep_defs Let_def\<close>)
  qed
qed

lemma solo_copy:
  assumes "reachable init (tx_step copyf job n) (at_pc f Idle zs)" "0 < n" "job 0 = (buf, l)" "txIndex zs < frameNum zs"
    "CopyToBuffer answers buf l copyf zs = Some (Ok i, zs')"
  shows "reachable init (tx_step copyf job n) (at_pc f (Written i) zs')"
proof -
  let ?zs1 = "zs\<lparr>txIndex := (txIndex zs + 1) mod frameNum zs\<rparr>"
  obtain zs2 where g: "getFreeTx answers zs = Some (Ok i, zs2)" and en: "txEnabled zs"
    using assms(5) by (auto simp: CopyToBuffer_def Let_def split: if_splits option.splits prod.splits outcome.splits)
  obtain zs1 rf where w: "txWritten zs \<noteq> frameNum zs" "i = txIndex zs" "wait_tx answers i ?zs1 = Some (Ok (), zs1)"
      "txMBReady (txFrames zs1 ! i) = (True, rf)" "zs2 = zs1\<lparr>txFrames := (txFrames zs1)[i := rf]\<rparr>"
    using g by (auto simp: getFreeTx_def Let_def split: if_splits option.splits prod.splits outcome.splits bool.splits)
  obtain dst cL where c: "copyf (txStart (txFrames zs2 ! i)) buf (uint l) = Ok (dst, cL)"
    using assms(5) g en by (auto simp: CopyToBuffer_def split: prod.splits outcome.splits)
  note step = solo_step [OF _ assms(2), where ans = "PollErr ErrClosed"]
  let ?zs3 = "zs2\<lparr>txFrames := (txFrames zs2)[i := setTpLens cL ((txFrames zs2 ! i)\<lparr>txStart := dst\<rparr>)],
    nPacketSent := nPacketSent zs2 + 1\<rparr>"
  let ?zs4 = "?zs3\<lparr>txWritten := txWritten ?zs3 + 1\<rparr>"
  have "reachable init (tx_step copyf job n) (at_pc f (Loaded i) zs)"
    by (rule step [OF assms(1)]) (use en w(1,2) in \<open>simp add: wstep_defs\<close>)
  then have "reachable init (tx_step copyf job n) (at_pc f (Waiting i) ?zs1)"
    by (rule step) (use w(2) in \<open>simp add: wstep_defs\<close>)
  from solo_wait [OF this assms(2) w(3)] have "reachable init (tx_step copyf job n) (at_pc f (Copying i) zs2)"
    by (rule step) (use w(4,5) in \<open>simp add: wstep_defs\<close>)
  then have "reachable init (tx_step copyf job n) (at_pc f (Counting i) ?zs3)"
    by (rule step) (use c assms(3) in \<open>simp add: wstep_defs Let_def\<close>)
  then have count: "reachable init (tx_step copyf job n)
      (at_pc f (if txWritten ?zs4 = 1 then Publishing i else Written i) ?zs4)"
    by (rule step) (simp add: wstep_defs Let_def)
  have zs': "zs' = (if txWritten ?zs4 = 1 then ?zs4\<lparr>txWrittenIndex := int i\<rparr> else ?zs4)"
    using assms(5) g en c by (auto simp: CopyToBuffer_def Let_def split: if_splits)
  show ?thesis
  proof (cases "txWritten ?zs4 = 1")
    case True
    with count have "reachable init (tx_step copyf job n) (at_pc f (Publishing i) ?zs4)" by simp
    then have "reachable init (tx_step copyf job n) (at_pc f (Written i) (?zs4\<lparr>txWrittenIndex := int i\<rparr>))"
      by (rule step) (simp add: wstep_defs)
    with True zs' show ?thesis by simp
  next
    case False
    with count zs' show ?thesis by simp
  qed
qed

subsection \<open>Properties\<close>

text \<open>
  C29. Writers never share a frame: for any number of goroutines writing to a ring at the same
  time, in every interleaving with each other and the kernel, the frames of those that are past
  the flag are different, the frame of a writer that is done carries its own data and length,
  and no more frames are counted than the ring has.
\<close>

theorem writers_exclusive:
  assumes "reachable (tx_start zs0) (tx_step copyf job n) s"
  shows "(\<forall>g h i. holds (wpcs s g) = Some i \<and> holds (wpcs s h) = Some i \<longrightarrow> g = h) \<and>
    (\<forall>g i. wpcs s g = Written i \<longrightarrow> i < frameNum (ring s) \<and> carries copyf (job g) (txFrames (ring s) ! i)) \<and>
    txWritten (ring s) \<le> frameNum (ring s)"
proof (intro conjI)
  note I = writers.reachable_inv [OF assms, unfolded tx_inv_def]
  show "\<forall>g h i. holds (wpcs s g) = Some i \<and> holds (wpcs s h) = Some i \<longrightarrow> g = h" using I by blast
  show "\<forall>g i. wpcs s g = Written i \<longrightarrow> i < frameNum (ring s) \<and> carries copyf (job g) (txFrames (ring s) ! i)"
    using I by (metis filled.simps(3) holds.simps(4))
  let ?C = "{g. g < n \<and> counted (wpcs s g)}" and ?f = "\<lambda>g. the (holds (wpcs s g))"
  have h: "\<exists>i. holds (wpcs s g) = Some i" if "g \<in> ?C" for g using that by (cases "wpcs s g") auto
  have "inj_on ?f ?C" using h I by (intro inj_onI) (metis option.sel)
  moreover have "?f ` ?C \<subseteq> {..<frameNum (ring s)}" using h I by fastforce
  ultimately have "card ?C \<le> card {..<frameNum (ring s)}" by (intro card_inj_on_le) auto
  then show "txWritten (ring s) \<le> frameNum (ring s)" using I by simp
qed

text \<open>
  \<open>CopyToBuffer\<close> is one schedule of the steps: what it returns when no other goroutine
  writes, with whatever answers of \<open>Poll\<close>, is reached by its writer running alone.
\<close>

theorem CopyToBuffer_is_schedule:
  assumes "tx_start zs0 s" "0 < n" "job 0 = (buf, l)" "CopyToBuffer answers buf l copyf zs0 = Some (Ok i, zs')"
  shows "reachable (tx_start zs0) (tx_step copyf job n) \<lparr>ring = zs', wpcs = (\<lambda>g. Idle)(0 := Written i)\<rparr>"
proof -
  have "at_pc (\<lambda>g. Idle) Idle zs0 = s" using assms(1) by (cases s) (auto simp: tx_start_def at_pc_def)
  then have "reachable (tx_start zs0) (tx_step copyf job n) (at_pc (\<lambda>g. Idle) Idle zs0)"
    using assms(1) by (auto intro: reach_init)
  from solo_copy [OF this assms(2,3) _ assms(4)] assms(1) show ?thesis
    by (auto simp: at_pc_def tx_start_def ring_ok_def)
qed

subsection \<open>Two writers that finish in the other order\<close>

fun run_writers :: "copy_fun \<Rightarrow> (nat \<Rightarrow> byte list \<times> u16) \<Rightarrow> nat list \<Rightarrow> tx_sys \<Rightarrow> tx_sys option" where
  "run_writers copyf job [] s = Some s"
| "run_writers copyf job (g # gs) s =
     (case wstep copyf (job g) (PollErr ErrClosed) (wpcs s g) (ring s) of
        None \<Rightarrow> None
      | Some (pc, zs) \<Rightarrow> run_writers copyf job gs (s\<lparr>ring := zs, wpcs := (wpcs s)(g := pc)\<rparr>))"

lemma run_writers_reachable:
  assumes "run_writers copyf job gs s = Some t" "list_all (\<lambda>g. g < n) gs"
    "reachable init (tx_step copyf job n) s"
  shows "reachable init (tx_step copyf job n) t"
  using assms
proof (induction gs arbitrary: s)
  case (Cons g gs)
  then obtain pc zs where w: "wstep copyf (job g) (PollErr ErrClosed) (wpcs s g) (ring s) = Some (pc, zs)"
      "run_writers copyf job gs (s\<lparr>ring := zs, wpcs := (wpcs s)(g := pc)\<rparr>) = Some t"
    by (auto split: option.splits)
  have "tx_step copyf job n s (s\<lparr>ring := zs, wpcs := (wpcs s)(g := pc)\<rparr>)"
    by (rule tx_step.writer [where ans = "PollErr ErrClosed"]) (use Cons.prems(2) w(1) in simp_all)
  from Cons.IH [OF w(2) _ reach_step [OF Cons.prems(3) this]] Cons.prems(2) show ?case by simp
qed simp

definition three_ring :: ZSocket where
  "three_ring = \<lparr>txEnabled = True, txLossDisabled = False, frameNum = 3, txFrameSize = 4, txIndex = 0,
     txWritten = 0, txWrittenIndex = -1, txFrames = replicate 3 \<lparr>tp_status = 0, tp_len = 0, tp_snaplen = 0, txStart = [0, 0], mb = 0\<rparr>, statPolls = 0,
     nPacketSent = 0, nPacketWrong = 0\<rparr>"

definition two_jobs :: "nat \<Rightarrow> byte list \<times> u16" where
  "two_jobs g = ([of_nat g + 1], 1)"

definition three_start :: tx_sys where
  "three_start = \<lparr>ring = three_ring, wpcs = (\<lambda>g. Idle)\<rparr>"

lemma three_started: "tx_start three_ring three_start"
  by (auto simp: tx_start_def three_start_def three_ring_def ring_ok_def marks_ok_def pending_tx_def)

text \<open>The ring after both have finished: the frames 0 and 1 are written, the index is that of frame 1.\<close>

definition two_written :: ZSocket where
  "two_written = three_ring\<lparr>txIndex := 2, txWritten := 2, txWrittenIndex := 1, nPacketSent := 2,
     txFrames := [\<lparr>tp_status = 0, tp_len = 1, tp_snaplen = 1, txStart = [1, 0], mb = 1\<rparr>,
                  \<lparr>tp_status = 0, tp_len = 1, tp_snaplen = 1, txStart = [2, 0], mb = 1\<rparr>,
                  \<lparr>tp_status = 0, tp_len = 0, tp_snaplen = 0, txStart = [0, 0], mb = 0\<rparr>]\<rparr>"

lemma two_written_reachable:
  "\<exists>s. reachable (tx_start three_ring) (tx_step copyFx two_jobs 2) s \<and> ring s = two_written \<and>
    wpcs s 0 = Written 0 \<and> wpcs s 1 = Written 1"
proof -
  have "map_option (\<lambda>s. (wpcs s 0, wpcs s 1, ring s))
      (run_writers copyFx two_jobs [0, 0, 1, 1, 1, 1, 1, 1, 1, 0, 0, 0, 0] three_start) =
    Some (Written 0, Written 1, two_written)"
    by code_simp
  then obtain s where s: "run_writers copyFx two_jobs [0, 0, 1, 1, 1, 1, 1, 1, 1, 0, 0, 0, 0] three_start = Some s"
      "wpcs s 0 = Written 0" "wpcs s 1 = Written 1" "ring s = two_written"
    by auto
  have "reachable (tx_start three_ring) (tx_step copyFx two_jobs 2) s"
    by (rule run_writers_reachable [OF s(1)]) (auto intro: reach_init three_started)
  with s show ?thesis by blast
qed

theorem writers_exclusive_witness:
  "\<exists>s. reachable (tx_start three_ring) (tx_step copyFx two_jobs 2) s \<and> ring s = two_written \<and>
    carries copyFx (two_jobs 0) (txFrames two_written ! 0) \<and> carries copyFx (two_jobs 1) (txFrames two_written ! 1) \<and>
    txWritten two_written \<le> frameNum two_written"
proof -
  obtain s where s: "reachable (tx_start three_ring) (tx_step copyFx two_jobs 2) s" "ring s = two_written"
      "wpcs s 0 = Written 0" "wpcs s 1 = Written 1"
    using two_written_reachable by blast
  from writers_exclusive [OF s(1)] s show ?thesis by auto
qed

theorem CopyToBuffer_is_schedule_witness:
  "\<exists>zs'. CopyToBuffer [] [1] 1 copyFx three_ring = Some (Ok 0, zs') \<and>
    reachable (tx_start three_ring) (tx_step copyFx two_jobs 2) \<lparr>ring = zs', wpcs = (\<lambda>g. Idle)(0 := Written 0)\<rparr>"
proof -
  have "map_option fst (CopyToBuffer [] [1] 1 copyFx three_ring) = Some (Ok 0)" by code_simp
  then obtain zs' where c: "CopyToBuffer [] [1] 1 copyFx three_ring = Some (Ok 0, zs')" by auto
  have "two_jobs 0 = ([1], 1)" by (simp add: two_jobs_def)
  from CopyToBuffer_is_schedule [where job = two_jobs and n = 2, OF three_started _ this c] c show ?thesis by auto
qed

text \<open>
  C30. \<open>FlushFrames\<close> can miss a written frame: when the writer that claimed the second frame
  finishes before the one that claimed the first, the flush starts at the second frame, hands
  the kernel a frame nobody wrote, and reports two frames sent, while the first stays unsent.
\<close>

theorem flush_misses_written_frame:
  "\<exists>s. reachable (tx_start three_ring) (tx_step copyFx two_jobs 2) s \<and>
    wpcs s 0 = Written 0 \<and> wpcs s 1 = Written 1 \<and>
    (\<exists>zs. FlushFrames None (\<lambda>i st. st) (ring s) = (Ok (2, []), zs) \<and>
      map tp_status (txFrames zs) = [0, TP_STATUS_SEND_REQUEST, TP_STATUS_SEND_REQUEST])"
proof -
  have "map_prod id (\<lambda>zs. map tp_status (txFrames zs)) (FlushFrames None (\<lambda>i st. st) two_written) =
    (Ok (2, []), [0, TP_STATUS_SEND_REQUEST, TP_STATUS_SEND_REQUEST])"
    by code_simp
  then show ?thesis using two_written_reachable by (cases "FlushFrames None (\<lambda>i st. st) two_written") auto
qed

end
