(* ===== verification/Ring_Props.thy ===== *)
theory Ring_Props
  imports Frame_Queue
begin

section \<open>What the transmit ring guarantees\<close>

text \<open>
  The sizes of a ring fit the memory it is mapped to, writing appends to the queue of pending
  frames, flushing hands exactly these to the kernel; and the two error paths on which that
  breaks: a failing \<open>Poll\<close> leaves a hole, a failing \<open>Sendto\<close> leaves frames claimed for ever.
\<close>

subsection \<open>Sizes\<close>

lemma largest_loop_step: "largest_loop c i = (if i < c then largest_loop c (push_bit 1 i) else Some i)"
  by (rule largest_loop.simps)

lemma calculateLargestFrame_small:
  assumes "ceil \<le> 32768"
  shows "\<exists>fs. calculateLargestFrame ceil = Some fs \<and> 1024 \<le> fs \<and> ceil \<le> fs \<and> fs \<le> 32768"
proof -
  note unroll = largest_loop_step [of ceil 1024] largest_loop_step [of ceil 2048]
    largest_loop_step [of ceil 4096] largest_loop_step [of ceil 8192]
    largest_loop_step [of ceil 16384] largest_loop_step [of ceil 32768]
  have min: "MINIMUM_FRAME_SIZE = 1024" by (simp add: MINIMUM_FRAME_SIZE_def TPACKET_ALIGNMENT_def)
  show ?thesis unfolding calculateLargestFrame_def min using assms by (auto simp: unroll not_less)
qed

lemma frame_size_bounds:
  assumes "check_ring_args maxFrameSize maxTotalFrames = Ok ()" "0 < pageSize"
  shows "\<exists>fs. frame_size_for pageSize maxFrameSize = Some fs \<and> 512 \<le> fs \<and> fs \<le> 32768"
proof -
  have mfs: "1024 \<le> maxFrameSize" "maxFrameSize \<le> 32768"
    using assms(1)
    by (auto simp: check_ring_args_def MINIMUM_FRAME_SIZE_def MAXIMUM_FRAME_SIZE_def TPACKET_ALIGNMENT_def
        not_less split: if_splits)
  show ?thesis
  proof (cases "maxFrameSize < pageSize")
    case True
    with calculateLargestFrame_small [OF mfs(2)] show ?thesis
      by (auto simp: frame_size_for_def word_le_nat_alt)
  next
    case False
    let ?q = "unat maxFrameSize div unat pageSize"
    have p: "0 < unat pageSize" "unat pageSize \<le> unat maxFrameSize"
      using assms(2) False by (simp_all add: word_less_nat_alt)
    have le: "?q * unat pageSize \<le> unat maxFrameSize" by simp
    have "unat maxFrameSize < (?q + 1) * unat pageSize"
      using dividend_less_times_div [OF p(1), of "unat maxFrameSize"] by (simp add: algebra_simps)
    moreover have "1 \<le> ?q" using p by (simp add: Suc_le_eq div_greater_zero_iff)
    then have "(?q + 1) * unat pageSize \<le> 2 * (?q * unat pageSize)" by simp
    moreover have "1024 \<le> unat maxFrameSize" using mfs(1) by (simp add: word_le_nat_alt)
    ultimately have ge: "512 \<le> ?q * unat pageSize" by linarith
    have "unat (maxFrameSize div pageSize * pageSize) = ?q * unat pageSize"
    proof -
      have "?q \<le> unat maxFrameSize" by (rule div_le_dividend)
      then have "?q < 18446744073709551616" "?q * unat pageSize < 18446744073709551616"
        using le unat_u64_less [of maxFrameSize] by linarith+
      then show ?thesis by (simp add: unat_word_ariths unat_div_distrib)
    qed
    moreover have "unat maxFrameSize \<le> 32768" using mfs(2) by (simp add: word_le_nat_alt)
    then have "?q * unat pageSize \<le> 32768" by (rule order_trans [OF le])
    ultimately have "512 \<le> maxFrameSize div pageSize * pageSize \<and> maxFrameSize div pageSize * pageSize \<le> 32768"
      using ge by (simp only: word_le_nat_alt) simp
    with False show ?thesis by (simp add: frame_size_for_def)
  qed
qed

lemma tx_slices_ok:
  "n * fs \<le> length raw \<Longrightarrow> TX_START \<le> fs \<Longrightarrow> \<exists>frs. tx_slices raw fs n = Ok frs \<and> length frs = n \<and> (\<forall>rf \<in> set frs. mb rf = 0)"
proof (induction n arbitrary: raw)
  case (Suc n)
  then have "n * fs \<le> length (drop fs raw)" "fs \<le> length raw" by auto
  with Suc.IH [of "drop fs raw"] Suc.prems(2) show ?case by (fastforce simp: mk_frame_def)
qed simp

definition per_block :: "bool \<Rightarrow> nat" where
  "per_block isV3 = (if isV3 then 1024 else 8)"

lemma unat_mult_small: "unat a * unat b < 18446744073709551616 \<Longrightarrow> unat (a * b :: u64) = unat a * unat b"
  by (simp add: unat_word_ariths)

lemma ring_request_ok:
  assumes args: "check_ring_args maxFrameSize maxTotalFrames = Ok ()" "0 < pageSize"
    and mt: "unat maxTotalFrames < 4294967296"
  shows "\<exists>req. ring_request pageSize isV3 maxFrameSize maxTotalFrames = Some (Ok req) \<and>
    512 \<le> unat (frameSize req) \<and> unat (frameSize req) \<le> 32768 \<and>
    unat (frameNumber req) = per_block isV3 * (unat maxTotalFrames div per_block isV3) \<and>
    unat (frameSize req) * unat (frameNumber req) = unat (blockSize req) * unat (blockNum req) \<and>
    unat (blockSize req) = unat (frameSize req) * per_block isV3 \<and>
    unat (blockNum req) = unat maxTotalFrames div per_block isV3"
proof -
  obtain fs where fs: "frame_size_for pageSize maxFrameSize = Some fs" "512 \<le> fs" "fs \<le> 32768"
    using frame_size_bounds [OF args] by blast
  define per :: u64 where "per = (if isV3 then framesPerBlock else 8)"
  have per: "unat per = per_block isV3" "0 < unat per" "unat per \<le> 1024"
    by (simp_all add: per_def per_block_def framesPerBlock_def)
  have f512: "512 \<le> unat fs" "unat fs \<le> 32768" using fs(2,3) by (simp_all add: word_le_nat_alt)
  then have f: "0 < unat fs" "unat fs \<le> 32768" by linarith+
  then have "fs \<noteq> 0" by auto
  have "unat fs * unat per \<le> 32768 * 1024" using f(2) per(3) by (rule mult_le_mono)
  then have bs: "unat (fs * per) = unat fs * unat per" by (intro unat_mult_small) simp
  have bn: "unat (maxTotalFrames div per) = unat maxTotalFrames div per_block isV3"
    by (simp add: unat_div_distrib per)
  have dv: "unat (fs * per div fs) = unat per" using bs f(1) by (simp add: unat_div_distrib)
  have "unat per * (unat maxTotalFrames div unat per) \<le> unat maxTotalFrames" by (rule times_div_less_eq_dividend)
  with mt have "unat per * (unat maxTotalFrames div unat per) < 18446744073709551616" by linarith
  then have "unat (fs * per div fs) * unat (maxTotalFrames div per) < 18446744073709551616"
    unfolding dv bn per(1) .
  from unat_mult_small [OF this]
  have fn: "unat (fs * per div fs * (maxTotalFrames div per)) = unat per * unat (maxTotalFrames div per)"
    unfolding dv .
  have req: "ring_request pageSize isV3 maxFrameSize maxTotalFrames = Some (Ok
      \<lparr>blockSize = fs * per, blockNum = maxTotalFrames div per, frameSize = fs,
       frameNumber = fs * per div fs * (maxTotalFrames div per)\<rparr>)"
    using fs \<open>fs \<noteq> 0\<close> args(2) by (auto simp: ring_request_def per_def Let_def)
  show ?thesis
    unfolding req using f512 bs bn fn per(1) by simp
qed

text \<open>The conversion to \<open>int32\<close> of a number that fits.\<close>

lemma nat_int32: "unat (w :: u64) < 2147483648 \<Longrightarrow> nat (sint (ucast w :: u32)) = unat w"
proof -
  assume w: "unat w < 2147483648"
  then have u: "unat (ucast w :: u32) = unat w" by (simp add: unsigned_ucast_eq take_bit_nat_eq_self)
  have "uint (ucast w :: u32) < 2147483648"
    using w u by (simp only: uint_nat [of "ucast w :: u32"])
  then have "signed_take_bit 31 (uint (ucast w :: u32)) = uint (ucast w :: u32)"
    by (intro signed_take_bit_int_eq_self order_trans [of "- (2 ^ 31)" 0 "uint (ucast w :: u32)"]) simp_all
  then have "sint (ucast w :: u32) = uint (ucast w :: u32)" by (simp add: sint_uint)
  then show ?thesis using u by (simp only: uint_nat nat_int)
qed

lemma new_tx_ok:
  assumes "unat (frameSize req) \<le> 32768" "unat (frameNumber req) < 2147483648" "0 < unat (frameNumber req)"
    "length raw = unat (frameSize req) * unat (frameNumber req)" "512 \<le> unat (frameSize req)"
  shows "\<exists>zs. new_tx raw req loss = Ok zs \<and> ring_ok zs \<and> frameNum zs = unat (frameNumber req) \<and>
    txEnabled zs \<and> pending_tx zs = []"
proof -
  have fs: "unat (ucast (frameSize req) :: u16) = unat (frameSize req)"
    using assms(1) by (simp add: unsigned_ucast_eq take_bit_nat_eq_self)
  have n: "nat (sint (ucast (frameNumber req) :: u32)) = unat (frameNumber req)"
    using assms(2) by (rule nat_int32)
  obtain frs where "tx_slices raw (unat (frameSize req)) (unat (frameNumber req)) = Ok frs"
      "length frs = unat (frameNumber req)" "\<forall>rf \<in> set frs. mb rf = 0"
    using tx_slices_ok [of "unat (frameNumber req)" "unat (frameSize req)" raw] assms(4,5)
    by (auto simp: mult.commute TX_START_def)
  with assms(3) fs n show ?thesis
    by (auto simp: new_tx_def Let_def ring_ok_def marks_ok_def pending_tx_def)
qed

subsection \<open>Error paths\<close>

lemma CopyToBuffer_poll_error:
  assumes "ring_ok zs" "txEnabled zs" "txWritten zs \<noteq> frameNum zs" "\<not> txReady (txFrames zs ! txIndex zs)"
  shows "CopyToBuffer (PollErr e # as) buf l copyf zs =
    Some (Err e, zs\<lparr>txIndex := (txIndex zs + 1) mod frameNum zs, statPolls := statPolls zs + 1\<rparr>)"
proof -
  have "\<not> length (txFrames zs) \<le> txIndex zs" using assms(1) by (simp add: ring_ok_def)
  with assms show ?thesis
    by (simp add: CopyToBuffer_def getFreeTx_def Let_def wait_tx.simps [of "PollErr e # as"])
qed

lemma getFreeTx_claimed:
  assumes "txWritten zs \<noteq> frameNum zs" "txIndex zs < length (txFrames zs)"
    "mb (txFrames zs ! txIndex zs) \<noteq> 0"
  shows "getFreeTx (map PollOk ks) zs = None"
proof (cases "wait_tx (map PollOk ks) (txIndex zs) (zs\<lparr>txIndex := (txIndex zs + 1) mod frameNum zs\<rparr>)")
  case None
  with assms show ?thesis by (simp add: getFreeTx_def Let_def)
next
  case (Some p)
  obtain r zs2 where p: "p = (r, zs2)" by fastforce
  have "r = Ok ()" using wait_tx_PollOk Some p by blast
  moreover have "same_frames (txFrames zs) (txFrames zs2)"
    using wait_tx_frame [OF Some [unfolded p]] assms(2) by simp
  then have "mb (txFrames zs2 ! txIndex zs) \<noteq> 0"
    using same_frames_sel(1) assms(2,3) by simp
  ultimately show ?thesis
    using assms(1,2) Some p by (simp add: getFreeTx_def txMBReady_def Let_def)
qed

subsection \<open>Properties\<close>

text \<open>
  C32. The ring fits its memory: for arguments \<open>NewZSocket\<close> accepts, every page size, both
  versions and less than 2^31 frames, the frame size it computes is between 512 and 32768 (so
  that it fits the 16-bit field), the number of frames is the requested one rounded down to
  whole blocks, a block holds 1024 or 8 frames exactly, and the size that is mapped,
  \<open>blockSize * blockNum\<close> in 64-bit arithmetic, is the size of all frames together, without
  overflow; a transmit ring of at least one frame over a mapping of that size is then set up
  without a slice out of range, whatever it contains, and satisfies the invariant.
\<close>

theorem ring_fits_memory:
  assumes "check_ring_args maxFrameSize maxTotalFrames = Ok ()" "0 < pageSize"
    "unat maxTotalFrames < 2147483648"
  shows "\<exists>req. ring_request pageSize isV3 maxFrameSize maxTotalFrames = Some (Ok req) \<and>
    512 \<le> unat (frameSize req) \<and> unat (frameSize req) \<le> 32768 \<and>
    unat (frameNumber req) = per_block isV3 * (unat maxTotalFrames div per_block isV3) \<and>
    unat (blockSize req) = unat (frameSize req) * per_block isV3 \<and>
    unat (blockSize req * blockNum req) = unat (frameSize req) * unat (frameNumber req) \<and>
    (0 < unat (frameNumber req) \<longrightarrow> length raw = unat (blockSize req * blockNum req) \<longrightarrow>
       (\<exists>zs. new_tx raw req loss = Ok zs \<and> ring_ok zs \<and> length (txFrames zs) = unat (frameNumber req)))"
proof -
  obtain req where req: "ring_request pageSize isV3 maxFrameSize maxTotalFrames = Some (Ok req)"
      "512 \<le> unat (frameSize req)" "unat (frameSize req) \<le> 32768"
      "unat (frameNumber req) = per_block isV3 * (unat maxTotalFrames div per_block isV3)"
      "unat (frameSize req) * unat (frameNumber req) = unat (blockSize req) * unat (blockNum req)"
      "unat (blockSize req) = unat (frameSize req) * per_block isV3"
    using ring_request_ok [OF assms(1,2)] assms(3) by force
  have "unat (frameNumber req) \<le> unat maxTotalFrames" unfolding req(4) by (rule times_div_less_eq_dividend)
  then have n: "unat (frameNumber req) < 2147483648" using assms(3) by linarith
  then have "unat (frameSize req) * unat (frameNumber req) \<le> 32768 * 2147483648"
    using req(3) by (intro mult_le_mono) simp_all
  then have m: "unat (blockSize req * blockNum req) = unat (frameSize req) * unat (frameNumber req)"
    unfolding req(5) by (intro unat_mult_small) simp
  have "\<exists>zs. new_tx raw req loss = Ok zs \<and> ring_ok zs \<and> length (txFrames zs) = unat (frameNumber req)"
    if "0 < unat (frameNumber req)" "length raw = unat (blockSize req * blockNum req)"
    using new_tx_ok [OF req(3) n that(1), of raw loss] that(2) m req(2) by (auto simp: ring_ok_def)
  note tx = this
  show ?thesis by (intro exI [of _ req] conjI impI tx) (fact req m | assumption)+
qed

theorem ring_fits_memory_witness:
  "\<exists>req. ring_request 4096 False 2048 4096 = Some (Ok req) \<and> unat (frameNumber req) = 4096 \<and>
    unat (blockSize req * blockNum req) = unat (frameSize req) * 4096"
proof -
  have c: "check_ring_args 2048 4096 = Ok ()" by code_simp
  have "unat (4096 :: u64) < 2147483648" by simp
  from ring_fits_memory [OF c _ this, of 4096 False "[]" False] show ?thesis by (auto simp: per_block_def)
qed

text \<open>
  The check on the number of frames does not say what its message says: it joins the two
  conditions with \<open>&&\<close>, so 7 frames pass (and give a ring of no frames at all), as do 1001,
  which is no multiple of 8, while 8 are refused.
\<close>

theorem frame_count_check:
  "check_ring_args 2048 7 = Ok () \<and> check_ring_args 2048 1001 = Ok () \<and>
   check_ring_args 2048 8 = Err (ErrText ''maxTotalFrames'') \<and>
   (\<exists>req. ring_request 4096 False 2048 7 = Some (Ok req) \<and> frameNumber req = 0)"
proof -
  have c: "check_ring_args 2048 7 = Ok ()" by code_simp
  have "unat (7 :: u64) < 4294967296" by simp
  from ring_request_ok [OF c _ this, of 4096 False]
  have "\<exists>req. ring_request 4096 False 2048 7 = Some (Ok req) \<and> frameNumber req = 0"
    by (auto simp: per_block_def unat_eq_0)
  moreover have "check_ring_args 2048 1001 = Ok ()" by code_simp
  moreover have "check_ring_args 2048 8 = Err (ErrText ''maxTotalFrames'')" by code_simp
  ultimately show ?thesis using c by blast
qed

text \<open>
  C28. Writing a frame: on a ring that satisfies the invariant and is not full, once the kernel
  has released the next frame, \<open>CopyToBuffer\<close> never waits on the frame's own flag, returns the
  index of that frame, appends it to the pending frames, stores what the copy function made and
  its length there, and changes the contents of no other frame.
\<close>

theorem CopyToBuffer_appends:
  assumes "ring_ok zs" "txEnabled zs" "txWritten zs \<noteq> frameNum zs"
    and "wait_tx as (txIndex zs) (zs\<lparr>txIndex := (txIndex zs + 1) mod frameNum zs\<rparr>) = Some (Ok (), zs2)"
    and "copyf (txStart (txFrames zs ! txIndex zs)) buf (uint l) = Ok (dst, cL)"
  shows "\<exists>zs'. CopyToBuffer as buf l copyf zs = Some (Ok (txIndex zs), zs') \<and> ring_ok zs' \<and>
    pending_tx zs' = pending_tx zs @ [txIndex zs] \<and>
    txStart (txFrames zs' ! txIndex zs) = dst \<and> tp_len (txFrames zs' ! txIndex zs) = ucast cL \<and>
    (\<forall>j < frameNum zs. j \<noteq> txIndex zs \<longrightarrow> txStart (txFrames zs' ! j) = txStart (txFrames zs ! j) \<and>
       tp_len (txFrames zs' ! j) = tp_len (txFrames zs ! j))"
  using CopyToBuffer_run [OF assms(1-4), of copyf buf l dst cL] assms(5) by blast

definition demo_ring :: ZSocket where
  "demo_ring = \<lparr>txEnabled = True, txLossDisabled = True, frameNum = 2, txFrameSize = 4, txIndex = 0,
     txWritten = 0, txWrittenIndex = -1, txFrames = replicate 2 (mk_frame (replicate 36 0)),
     statPolls = 0, nPacketSent = 0, nPacketWrong = 0\<rparr>"

lemma demo_ring_ok: "ring_ok demo_ring" "txEnabled demo_ring"
  by (auto simp: demo_ring_def ring_ok_def marks_ok_def pending_tx_def mk_frame_def nth_Cons')

theorem CopyToBuffer_appends_witness:
  "\<exists>zs'. CopyToBuffer [] [1, 2] 2 copyFx demo_ring = Some (Ok 0, zs') \<and> pending_tx zs' = [0] \<and>
    txStart (txFrames zs' ! 0) = [1, 2, 0, 0]"
proof -
  have w: "wait_tx [] (txIndex demo_ring) (demo_ring\<lparr>txIndex := (txIndex demo_ring + 1) mod frameNum demo_ring\<rparr>) =
      Some (Ok (), demo_ring\<lparr>txIndex := (txIndex demo_ring + 1) mod frameNum demo_ring\<rparr>)"
    by (simp add: wait_tx.simps [of "[]"] demo_ring_def txReady_def mk_frame_def)
  have c: "copyFx (txStart (txFrames demo_ring ! txIndex demo_ring)) [1, 2] (uint (2 :: u16)) =
      Ok ([1, 2, 0, 0], 2)"
    by code_simp
  have "txWritten demo_ring \<noteq> frameNum demo_ring" by (simp add: demo_ring_def)
  from CopyToBuffer_appends [OF demo_ring_ok this w, of copyFx "[1, 2]" 2 "[1, 2, 0, 0]" 2] c show ?thesis
    by (auto simp: demo_ring_def pending_tx_def)
qed

text \<open>
  C27. Flushing: when \<open>Sendto\<close> succeeds, the kernel finds exactly the pending frames marked for
  sending and all other frames as they were; what it makes of the statuses stands in the frames
  afterwards, the flags of the pending frames are cleared, contents and lengths are unchanged;
  the frames in error are the pending ones the kernel marked as malformed (when losses are not
  accepted), in the order they were written, all others are counted as flushed; and the queue
  is empty on a ring that satisfies the invariant.
\<close>

theorem FlushFrames_hands_over:
  assumes "ring_ok zs" "txEnabled zs"
  shows "\<exists>n errs zs'. FlushFrames None k zs = (Ok (n, errs), zs') \<and>
    (\<forall>i < frameNum zs. txFrames zs' ! i =
       (if i \<in> set (pending_tx zs)
        then (txFrames zs ! i)\<lparr>tp_status := k i TP_STATUS_SEND_REQUEST, mb := 0\<rparr>
        else if pending_tx zs = [] then txFrames zs ! i
        else (txFrames zs ! i)\<lparr>tp_status := k i (tp_status (txFrames zs ! i))\<rparr>)) \<and>
    errs = filter (\<lambda>i. txLossDisabled zs \<and>
      k i TP_STATUS_SEND_REQUEST AND TP_STATUS_WRONG_FORMAT = TP_STATUS_WRONG_FORMAT) (pending_tx zs) \<and>
    n + length errs = length (pending_tx zs) \<and> distinct (pending_tx zs) \<and>
    ring_ok zs' \<and> pending_tx zs' = []"
proof -
  let ?bad = "bad_frames (txLossDisabled zs) (kernel_step k (offered zs)) (pending_tx zs)"
  have b: "length ?bad \<le> length (pending_tx zs)" unfolding bad_frames_def by (rule length_filter_le)
  have "\<forall>i \<in> set (pending_tx zs). i < frameNum zs" using pending_less [OF assms(1)] by blast
  then have bad: "?bad = filter (\<lambda>i. txLossDisabled zs \<and>
      k i TP_STATUS_SEND_REQUEST AND TP_STATUS_WRONG_FORMAT = TP_STATUS_WRONG_FORMAT) (pending_tx zs)"
    unfolding bad_frames_def
    by (intro filter_cong) (auto simp: txWrongFormat_def kernel_step_nth offered_def txSet_def)
  have "distinct (pending_tx zs)"
    using assms(1) by (cases "txWritten zs = 0")
      (auto simp: pending_tx_def ring_ok_def intro!: distinct_ring_seq)
  moreover have "length (pending_tx zs) = txWritten zs" by (simp add: pending_tx_def)
  ultimately show ?thesis
    using b FlushFrames_run [OF assms, of k] unfolding bad flushed_frame_def Let_def by fastforce
qed

theorem FlushFrames_hands_over_witness:
  "\<exists>zs'. FlushFrames None (\<lambda>i st. st + 4)
      (demo_ring\<lparr>txIndex := 1, txWritten := 1, txWrittenIndex := 0,
        txFrames := [(mk_frame (replicate 36 0))\<lparr>mb := 1\<rparr>, mk_frame (replicate 36 0)]\<rparr>) = (Ok (0, [0]), zs') \<and>
    tp_status (txFrames zs' ! 0) = 5 \<and> tp_status (txFrames zs' ! 1) = 4 \<and> mb (txFrames zs' ! 0) = 0 \<and> pending_tx zs' = []"
proof -
  let ?zs = "demo_ring\<lparr>txIndex := 1, txWritten := 1, txWrittenIndex := 0,
        txFrames := [(mk_frame (replicate 36 0))\<lparr>mb := 1\<rparr>, mk_frame (replicate 36 0)]\<rparr>"
  have "ring_ok ?zs" "txEnabled ?zs"
    by (auto simp: demo_ring_def ring_ok_def marks_ok_def pending_tx_def mk_frame_def nth_Cons')
  moreover have "pending_tx ?zs = [0]" "frameNum ?zs = 2" "txLossDisabled ?zs"
    by (simp_all add: pending_tx_def demo_ring_def)
  ultimately show ?thesis
    using FlushFrames_hands_over [of ?zs "\<lambda>i st. st + 4"]
    by (fastforce simp: TP_STATUS_SEND_REQUEST_def TP_STATUS_WRONG_FORMAT_def mk_frame_def less_2_cases_iff)
qed

text \<open>
  C40. An error of \<open>Poll\<close> leaves a hole: \<open>getFreeTx\<close> has moved \<open>txIndex\<close> on before it waits, and
  does not move it back, so that the frames written before and the frames written after are no
  longer contiguous, as \<open>FlushFrames\<close> takes them to be.
\<close>

theorem poll_error_leaves_hole:
  assumes "ring_ok zs" "txEnabled zs" "txWritten zs \<noteq> frameNum zs" "txWritten zs \<noteq> 0" "1 < frameNum zs"
    "\<not> txReady (txFrames zs ! txIndex zs)"
  shows "\<exists>zs'. CopyToBuffer (PollErr e # as) buf l copyf zs = Some (Err e, zs') \<and>
    pending_tx zs' = pending_tx zs \<and> txIndex zs' = (txIndex zs + 1) mod frameNum zs \<and> \<not> ring_ok zs'"
proof -
  let ?zs = "zs\<lparr>txIndex := (txIndex zs + 1) mod frameNum zs, statPolls := statPolls zs + 1\<rparr>"
  have eq: "(nat (txWrittenIndex zs) + txWritten zs) mod frameNum zs = txIndex zs" "txIndex zs < frameNum zs"
    using assms(1,4) by (auto simp: ring_ok_def)
  have "(txIndex zs + 1) mod frameNum zs \<noteq> txIndex zs"
    using mod_apart [of 0 1 "frameNum zs" "txIndex zs"] assms(5) eq(2) by simp
  with eq assms(4) have "\<not> ring_ok ?zs" by (simp add: ring_ok_def)
  with CopyToBuffer_poll_error [OF assms(1-3,6)] show ?thesis by (auto simp: pending_tx_def)
qed

theorem poll_error_leaves_hole_witness:
  "\<exists>zs'. CopyToBuffer [PollErr (Errno 4)] [1] 1 copyFx
      (demo_ring\<lparr>txIndex := 1, txWritten := 1, txWrittenIndex := 0,
        txFrames := [(mk_frame (replicate 36 0))\<lparr>mb := 1\<rparr>, (mk_frame (replicate 36 0))\<lparr>tp_status := 1\<rparr>]\<rparr>) =
      Some (Err (Errno 4), zs') \<and> \<not> ring_ok zs'"
proof -
  let ?zs = "demo_ring\<lparr>txIndex := 1, txWritten := 1, txWrittenIndex := 0,
        txFrames := [(mk_frame (replicate 36 0))\<lparr>mb := 1\<rparr>, (mk_frame (replicate 36 0))\<lparr>tp_status := 1\<rparr>]\<rparr>"
  have "ring_ok ?zs" "txEnabled ?zs" "txWritten ?zs \<noteq> frameNum ?zs" "txWritten ?zs \<noteq> 0" "1 < frameNum ?zs"
    by (auto simp: demo_ring_def ring_ok_def marks_ok_def pending_tx_def mk_frame_def nth_Cons')
  moreover have "\<not> txReady (txFrames ?zs ! txIndex ?zs)"
    by (simp add: txReady_def mk_frame_def TP_STATUS_SEND_REQUEST_def TP_STATUS_SENDING_def)
  ultimately show ?thesis using poll_error_leaves_hole [of ?zs "Errno 4" "[]" "[1]" 1 copyFx] by blast
qed

text \<open>
  C39. A failing \<open>Sendto\<close> blocks the ring: \<open>FlushFrames\<close> returns before it clears the flags of the
  frames, and forgets that they were pending. After that on a full ring every later write waits
  for ever, however long the kernel answers.
\<close>

theorem failed_flush_blocks_ring:
  assumes "ring_ok zs" "txEnabled zs" "txWritten zs = frameNum zs"
  shows "\<exists>zs'. FlushFrames (Some e) k zs = (Err e, zs') \<and>
    (\<forall>ks buf l copyf. CopyToBuffer (map PollOk ks) buf l copyf zs' = None)"
proof -
  have pos: "frameNum zs \<noteq> 0" using ring_pos [OF assms(1)] by simp
  then have w: "txWritten zs \<noteq> 0" "txWrittenIndex zs \<noteq> -1" using assms by (auto simp: ring_ok_def)
  define zs' where "zs' = zs\<lparr>txWrittenIndex := -1, txWritten := 0, txFrames := kernel_step k (offered zs)\<rparr>"
  have run: "FlushFrames (Some e) k zs = (Err e, zs')"
    using assms(2) w(2) set_loop_offered [OF assms(1) w(1)] by (simp add: FlushFrames_def Let_def zs'_def)
  have ix: "0 \<le> txWrittenIndex zs" "txWrittenIndex zs < int (frameNum zs)" "txIndex zs < frameNum zs"
    "(nat (txWrittenIndex zs) + frameNum zs) mod frameNum zs = txIndex zs"
    using assms(1,3) w(1) by (auto simp: ring_ok_def)
  then have "txIndex zs = nat (txWrittenIndex zs)" by simp
  moreover obtain m where "txWritten zs = Suc m" using w(1) by (cases "txWritten zs") auto
  ultimately have "txIndex zs \<in> set (pending_tx zs)" by (simp add: pending_tx_def)
  then have "mb (txFrames zs ! txIndex zs) = 1" using assms(1) ix(3) by (simp add: ring_ok_def marks_ok_def)
  then have "mb (txFrames zs' ! txIndex zs') \<noteq> 0" using mb_offered [OF ix(3)] by (simp add: zs'_def)
  then have "getFreeTx (map PollOk ks) zs' = None" for ks
    using pos ix(3) by (intro getFreeTx_claimed) (simp_all add: zs'_def)
  then have "CopyToBuffer (map PollOk ks) buf l copyf zs' = None" for ks buf l copyf
    using assms(2) by (simp add: CopyToBuffer_def zs'_def)
  with run show ?thesis by blast
qed

theorem failed_flush_blocks_ring_witness:
  "\<exists>zs'. FlushFrames (Some (Errno 105)) (\<lambda>i st. 0)
      (demo_ring\<lparr>txWritten := 2, txWrittenIndex := 0,
        txFrames := replicate 2 ((mk_frame (replicate 36 0))\<lparr>mb := 1\<rparr>)\<rparr>) = (Err (Errno 105), zs') \<and>
    CopyToBuffer (map PollOk [\<lambda>i st. 0]) [1] 1 copyFx zs' = None"
proof -
  let ?zs = "demo_ring\<lparr>txWritten := 2, txWrittenIndex := 0,
        txFrames := replicate 2 ((mk_frame (replicate 36 0))\<lparr>mb := 1\<rparr>)\<rparr>"
  have "ring_ok ?zs" "txEnabled ?zs" "txWritten ?zs = frameNum ?zs"
    by (auto simp: demo_ring_def ring_ok_def marks_ok_def pending_tx_def mk_frame_def nth_Cons' numeral_2_eq_2)
  from failed_flush_blocks_ring [OF this, of "Errno 105" "\<lambda>i st. 0"] show ?thesis by blast
qed

end
