(* ===== verification/Mcast_Props.thy ===== *)
theory Mcast_Props
  imports Mcast_If Ring_Props
begin

section \<open>What the connections guarantee\<close>

text \<open>
  The frames a ring connection sends, batches through the ring, the open and close protocol of
  the three connections, and that the client never receives through an operation its connection
  does not support.
\<close>

subsection \<open>Frames of a ring connection\<close>

definition sender_ok :: "zsockIf \<Rightarrow> bool" where
  "sender_ok c \<longleftrightarrow> length (z_dst c) = 6 \<and> length (z_src c) = 6 \<and> length (z_srcIP c) = 4 \<and>
     length (z_dstIP c) = 4 \<and> 0 \<le> z_port c \<and> z_port c < 65536"

lemma addresses_written:
  assumes "length dst = 6" "length src = 6" "12 \<le> length d"
  shows "put_slice (go_copy d dst) 6 (length d) src = dst @ src @ drop 12 d"
  using assms by (simp add: put_slice_def go_slice_def go_copy_def)

lemma put_slice_tail:
  assumes "length h = n" "length src \<le> length ys"
  shows "put_slice (h @ ys) n (length (h @ ys)) src = h @ src @ drop (length src) ys"
  using assms by (simp add: put_slice_def go_slice_def go_copy_def)

lemma zsockIf_copyFx_Ok:
  assumes "sender_ok c" "42 + length src \<le> length d" "src \<noteq> []" "l = int (length src)"
  shows "\<exists>ck. zsockIf_copyFx cks c d src l =
    Ok (z_dst c @ z_src c @ [8, 0] @ ip_bytes l ck (z_srcIP c) (z_dstIP c) @ udp_bytes (z_port c) l @
        src @ drop (42 + length src) d, of_int (l + 42))"
proof -
  let ?d2 = "z_dst c @ z_src c @ drop 12 d"
  have len: "length (z_dst c) = 6" "length (z_src c) = 6" "length (z_srcIP c) = 4" "length (z_dstIP c) = 4"
    using assms(1) by (simp_all add: sender_ok_def)
  have d2: "put_slice (go_copy d (z_dst c)) 6 (length d) (z_src c) = ?d2"
    using len assms(2) by (intro addresses_written) auto
  let ?ck = "cks (ip_bytes l 0 (z_srcIP c) (z_dstIP c) @ drop 34 ?d2)"
  let ?hd = "z_dst c @ z_src c @ [8, 0] @ ip_bytes l ?ck (z_srcIP c) (z_dstIP c) @ udp_bytes (z_port c) l"
  have raw: "buildRawUDP cks ?d2 l (z_port c) (z_srcIP c) (z_dstIP c) = Ok (?hd @ drop 42 d)"
    using buildRawUDP_Ok [of ?d2 "z_srcIP c" "z_dstIP c" cks l "z_port c"] len assms(2) by simp
  have hd: "length ?hd = 42" using len by simp
  have "put_slice (?hd @ drop 42 d) 42 (length (?hd @ drop 42 d)) src = ?hd @ src @ drop (length src) (drop 42 d)"
    using assms(2) by (intro put_slice_tail [OF hd]) simp
  moreover have "length (go_copy d (z_dst c)) = length d" by simp
  ultimately show ?thesis
    using raw d2 assms by (intro exI [of _ ?ck]) (simp add: zsockIf_copyFx_def Let_def add.commute)
qed

subsection \<open>Batches\<close>

lemma msend_loop_cong:
  assumes "\<And>n b s. P s \<Longrightarrow> b \<in> set bs \<Longrightarrow> f n b s = g n b s"
    and "\<And>n b s i s'. P s \<Longrightarrow> b \<in> set bs \<Longrightarrow> g n b s = Some (Ok i, s') \<Longrightarrow> P s'"
    and "P s"
  shows "msend_loop f n bs s = msend_loop g n bs s"
  using assms
proof (induction bs arbitrary: n s)
  case (Cons b bs)
  have "f n b s = g n b s" using Cons.prems(1,3) by simp
  moreover have "msend_loop f (n + 1) bs s' = msend_loop g (n + 1) bs s'" if "g n b s = Some (Ok i, s')" for i s'
    using Cons.prems(1) Cons.prems(2) Cons.prems(2) [OF Cons.prems(3) _ that]
    by (intro Cons.IH) (meson list.set_intros)+
  ultimately show ?case by (auto split: option.split outcome.split)
qed simp

text \<open>A copy function that succeeds on the frames at hand behaves as a total one.\<close>

definition total_copy :: "copy_fun \<Rightarrow> byte list \<Rightarrow> byte list \<Rightarrow> int \<Rightarrow> byte list \<times> u16" where
  "total_copy copyf d s l = (case copyf d s l of Ok x \<Rightarrow> x | _ \<Rightarrow> ([], 0))"

lemma CopyToBuffer_total:
  assumes "ring_ok zs" "txEnabled zs"
    "\<forall>i < frameNum zs. \<exists>x. copyf (txStart (txFrames zs ! i)) b (uint (of_nat (length b) :: u16)) = Ok x"
  shows "CopyToBuffer (map PollOk (ks n)) b (of_nat (length b)) copyf zs = ring_put ks (total_copy copyf) n b zs"
proof (cases "txWritten zs = frameNum zs")
  case True
  with assms(2) show ?thesis by (simp add: ring_put_def CopyToBuffer_def getFreeTx_def)
next
  case False
  let ?w = "wait_tx (map PollOk (ks n)) (txIndex zs) (zs\<lparr>txIndex := (txIndex zs + 1) mod frameNum zs\<rparr>)"
  have len: "txIndex zs < frameNum zs" "\<not> length (txFrames zs) \<le> txIndex zs" "length (txFrames zs) = frameNum zs"
    using assms(1) by (auto simp: ring_ok_def)
  obtain x where x: "copyf (txStart (txFrames zs ! txIndex zs)) b (uint (of_nat (length b) :: u16)) = Ok x"
    using assms(3) len(1) by blast
  show ?thesis
  proof (cases ?w)
    case None
    with assms(2) False len show ?thesis by (simp add: ring_put_def CopyToBuffer_def getFreeTx_def Let_def)
  next
    case (Some p)
    then obtain zs2 where w: "?w = Some (Ok (), zs2)"
      using wait_tx_PollOk by (metis prod.exhaust)
    note g = getFreeTx_ok [OF assms(1) False w]
    have "txStart (txFrames zs2 ! txIndex zs) = txStart (txFrames zs ! txIndex zs)" "length (txFrames zs2) = frameNum zs"
      using same_frames_sel(2) [OF g(2)] g(2) len by (simp_all add: same_frames_def)
    with g(1) x len assms(2) show ?thesis
      by (simp add: ring_put_def CopyToBuffer_def total_copy_def)
  qed
qed

definition frames_of :: "nat \<Rightarrow> ZSocket \<Rightarrow> bool" where
  "frames_of M zs \<longleftrightarrow> (\<forall>i < frameNum zs. length (txStart (txFrames zs ! i)) = M)"

lemma copyFx_fits:
  assumes "sender_ok c" "b \<noteq> []" "length b < 65494" "42 + length b \<le> M" "length d = M"
  shows "\<exists>x. zsockIf_copyFx cks c d b (uint (of_nat (length b) :: u16)) = Ok x \<and> length (fst x) = M"
proof -
  have "uint (of_nat (length b) :: u16) = int (length b)"
    using unat_of_nat_u16 [of "length b"] assms(3) by (simp add: uint_nat del: unat_of_nat)
  with zsockIf_copyFx_Ok [OF assms(1) _ assms(2) refl, of d] assms show ?thesis
    by (fastforce simp: sender_ok_def)
qed

lemma MSend_loop_ring:
  assumes "sender_ok c" "ring_ok zs" "txEnabled zs" "frames_of M zs"
    "\<forall>b \<in> set buffs. b \<noteq> [] \<and> length b < 65494 \<and> 42 + length b \<le> M"
  shows "msend_loop (\<lambda>n b. CopyToBuffer (map PollOk (ks n)) b (of_nat (length b)) (zsockIf_copyFx cks c)) n buffs zs =
    msend_loop (ring_put ks (total_copy (zsockIf_copyFx cks c))) n buffs zs"
proof (rule msend_loop_cong [where P = "\<lambda>zs. ring_ok zs \<and> txEnabled zs \<and> frames_of M zs"])
  fix n b s
  assume s: "ring_ok s \<and> txEnabled s \<and> frames_of M s" and b: "b \<in> set buffs"
  note fits = copyFx_fits [OF assms(1), of b M _ cks]
  show "CopyToBuffer (map PollOk (ks n)) b (of_nat (length b)) (zsockIf_copyFx cks c) s =
      ring_put ks (total_copy (zsockIf_copyFx cks c)) n b s"
  proof (rule CopyToBuffer_total)
    show "\<forall>i < frameNum s. \<exists>x. zsockIf_copyFx cks c (txStart (txFrames s ! i)) b (uint (of_nat (length b) :: u16)) = Ok x"
      using fits s b assms(5) unfolding frames_of_def by blast
  qed (use s in auto)
  fix i s'
  assume p: "ring_put ks (total_copy (zsockIf_copyFx cks c)) n b s = Some (Ok i, s')"
  have "length (fst (total_copy (zsockIf_copyFx cks c) d b (uint (of_nat (length b) :: u16)))) = M" if "length d = M" for d
    using fits [of d] b assms(5) that by (auto simp: total_copy_def)
  with ring_put_cases [OF _ _ p] s show "ring_ok s' \<and> txEnabled s' \<and> frames_of M s'"
    by (auto simp: frames_of_def)
qed (use assms in simp)

subsection \<open>Properties\<close>

text \<open>
  The frame of a datagram: for a connection opened for sending, a payload that fits behind
  the 42 bytes of headers is put into the frame unchanged, the length reported to the kernel is
  that of headers and payload, and the frame passes the packet filter of a receiver on the same
  port and of no other.
\<close>

theorem sent_frame_carries_payload:
  assumes "sender_ok c" "42 + length src \<le> length d" "src \<noteq> []" "length src < 65494"
    "0 \<le> port'" "port' < 65536"
  shows "\<exists>frame n. zsockIf_copyFx cks c d src (int (length src)) = Ok (frame, n) \<and>
    length frame = length d \<and> unat n = 42 + length src \<and> take 6 frame = z_dst c \<and>
    take (length src) (drop 42 frame) = src \<and>
    bpf_run (snd (setBPF attach port' filter_table)) frame 0 0 =
      (if z_port c = port' then 0x40000 else 0)"
proof -
  let ?l = "int (length src)"
  have len: "length (z_dst c) = 6" "length (z_src c) = 6" "length (z_srcIP c) = 4" "length (z_dstIP c) = 4"
    "0 \<le> z_port c" "z_port c < 65536"
    using assms(1) by (simp_all add: sender_ok_def)
  obtain ck where f: "zsockIf_copyFx cks c d src ?l =
      Ok (z_dst c @ z_src c @ [8, 0] @ ip_bytes ?l ck (z_srcIP c) (z_dstIP c) @ udp_bytes (z_port c) ?l @
          src @ drop (42 + length src) d, of_int (?l + 42))"
    using zsockIf_copyFx_Ok [OF assms(1-3) refl] by blast
  let ?rest = "src @ drop (42 + length src) d"
  have n: "unat (of_int (?l + 42) :: u16) = 42 + length src"
    using unat_of_nat_u16 [of "length src + 42"] assms(4) by (simp add: add.commute)
  have "(of_int (z_port c) :: u16) = of_int port' \<longleftrightarrow> z_port c = port'"
    using len(5,6) assms(5,6) by (simp add: word_uint_eq_iff uint_word_of_int)
  then have "passes port' ((z_dst c @ z_src c) @ [8, 0] @ ip_bytes ?l ck (z_srcIP c) (z_dstIP c) @
      udp_bytes (z_port c) ?l @ ?rest) \<longleftrightarrow> z_port c = port'"
    using built_passes [of "z_dst c @ z_src c" "z_srcIP c" "z_dstIP c" port' ?l ck "z_port c" ?rest] len by simp
  with f n len assms(2,5,6) show ?thesis by (simp add: setBPF_table filter_passes)
qed

definition demo_sender :: zsockIf where
  "demo_sender = newZSockIf\<lparr>z_dst := [1, 0, 0x5e, 0, 0, 1], z_src := [2, 2, 2, 2, 2, 2],
     z_srcIP := [10, 0, 0, 1], z_dstIP := [224, 0, 0, 1], z_port := 5858\<rparr>"

theorem sent_frame_carries_payload_witness:
  "\<exists>frame n. zsockIf_copyFx (\<lambda>h. 0) demo_sender (replicate 50 0) [7, 8, 9] 3 = Ok (frame, n) \<and>
    unat n = 45 \<and> take 3 (drop 42 frame) = [7, 8, 9] \<and>
    bpf_run (snd (setBPF (\<lambda>f. None) 5858 filter_table)) frame 0 0 = 0x40000"
proof -
  have "sender_ok demo_sender" by (simp add: sender_ok_def demo_sender_def newZSockIf_def)
  from sent_frame_carries_payload [OF this, of "[7, 8, 9]" "replicate 50 0" 5858 "\<lambda>h. 0" "\<lambda>f. None"]
  show ?thesis by (auto simp: demo_sender_def numeral_3_eq_3)
qed

text \<open>
  C31. A batch through the ring: on a ring with nothing pending, with a kernel that answers
  without errors and payloads that fit the frames, \<open>MSend\<close> returns a number of datagrams and
  leaves nothing pending on a ring that satisfies the invariant; the number is that of the
  batch unless the ring was too small, and then it is that of all its frames.
\<close>

theorem MSend_batches:
  assumes "sender_ok c" "z_zs c = Some zs" "ring_ok zs" "txEnabled zs" "pending_tx zs = []" "frames_of M zs"
    and "\<forall>b \<in> set buffs. b \<noteq> [] \<and> length b < 65494 \<and> 42 + length b \<le> M"
    and "zsockIf_MSend cks (\<lambda>n. map PollOk (ks n)) None k buffs c = Some (r, c')"
  shows "\<exists>m zs'. r = Ok m \<and> m = min (length buffs) (frameNum zs) \<and> z_zs c' = Some zs' \<and> ring_ok zs' \<and>
    pending_tx zs' = []"
proof (cases "buffs = []")
  case True
  with assms show ?thesis by (auto simp: zsockIf_MSend_def)
next
  case False
  let ?loop = "msend_loop (ring_put ks (total_copy (zsockIf_copyFx cks c))) 0 buffs zs"
  have eq: "msend_loop (\<lambda>n b. CopyToBuffer (map PollOk (ks n)) b (of_nat (length b)) (zsockIf_copyFx cks c)) 0 buffs zs
      = ?loop"
    using assms(1,3,4,6,7) by (intro MSend_loop_ring)
  obtain r1 zs1 where l: "?loop = Some (r1, zs1)"
    using assms(2,8) False eq by (auto simp: zsockIf_MSend_def split: option.splits)
  have w0: "txWritten zs = 0" using assms(5) length_pending_tx [of zs] by simp
  obtain m where m: "r1 = Ok m" "m \<le> length buffs" "ring_ok zs1" "txEnabled zs1" "frameNum zs1 = frameNum zs"
      "txWritten zs1 = m" "m < length buffs \<longrightarrow> m = frameNum zs"
    using ring.msend_loop_effect [OF _ l] assms(3,4) w0 by auto
  have "m \<le> frameNum zs" using m(3,5,6) by (simp add: ring_ok_def)
  then have mm: "m = min (length buffs) (frameNum zs)" using m(2,7) by auto
  show ?thesis
  proof (cases "m = 0")
    case True
    then have "r = Ok m" "z_zs c' = Some zs1"
      using assms(2,8) False eq l m(1) by (auto simp: zsockIf_MSend_def)
    moreover have "pending_tx zs1 = []" using m(6) True by (simp add: pending_tx_def)
    ultimately show ?thesis using m(3) mm by blast
  next
    case False
    obtain n errs zs2 where f: "FlushFrames None k zs1 = (Ok (n, errs), zs2)" "ring_ok zs2" "pending_tx zs2 = []"
      using ring.flush_law [of zs1 k] m(3,4) by auto
    then have "r = Ok m" "z_zs c' = Some zs2"
      using assms(2,8) False \<open>buffs \<noteq> []\<close> eq l m(1) by (auto simp: zsockIf_MSend_def)
    with f(2,3) mm show ?thesis by blast
  qed
qed

theorem MSend_batches_witness:
  "\<exists>r c'. zsockIf_MSend (\<lambda>h. 0) (\<lambda>n. map PollOk []) None (\<lambda>i st. 0) [[7], [8], [9]]
      (demo_sender\<lparr>z_zs := Some (demo_ring\<lparr>txFrames := replicate 2 (mk_frame (replicate 82 0))\<rparr>)\<rparr>) = Some (r, c') \<and>
    r = Ok 2"
proof -
  let ?zs = "demo_ring\<lparr>txFrames := replicate 2 (mk_frame (replicate 82 0))\<rparr>"
  let ?c = "demo_sender\<lparr>z_zs := Some ?zs\<rparr>"
  have h: "sender_ok ?c" "z_zs ?c = Some ?zs" "ring_ok ?zs" "txEnabled ?zs" "pending_tx ?zs = []" "frames_of 50 ?zs"
    by (auto simp: sender_ok_def demo_sender_def newZSockIf_def demo_ring_def ring_ok_def marks_ok_def
        pending_tx_def mk_frame_def frames_of_def TX_START_def nth_Cons' numeral_2_eq_2)
  have "map_option fst (zsockIf_MSend (\<lambda>h. 0) (\<lambda>n. map PollOk []) None (\<lambda>i st. 0) [[7], [8], [9]] ?c) \<noteq> None"
    by code_simp
  then obtain r c' where s: "zsockIf_MSend (\<lambda>h. 0) (\<lambda>n. map PollOk ((\<lambda>n. []) n)) None (\<lambda>i st. 0) [[7], [8], [9]] ?c = Some (r, c')"
    by (auto simp del: list.map)
  have "\<forall>b \<in> set [[7], [8], [9 :: byte]]. b \<noteq> [] \<and> length b < 65494 \<and> 42 + length b \<le> 50" by simp
  from MSend_batches [OF h this s] s show ?thesis by (auto simp: demo_ring_def)
qed

text \<open>
  The open and close protocol, for all three connections: a second open, for reading or for
  sending, is refused and changes nothing; closing leaves the connection closed, and closing
  again is reported as an error.
\<close>

theorem open_close_protocol:
  "(netIf_Open listen ip port n = (Ok (), n') \<longrightarrow>
      netIf_Open listen' ip' port' n' = (Err ErrOpened, n') \<and> net_bRead n') \<and>
   (sockIf_Open socket bind ip port s = (Ok (), s') \<longrightarrow>
      sockIf_Open socket' bind' ip' port' s' = (Err ErrOpened, s') \<and> sock_bRead s') \<and>
   (\<not> z_fake z \<longrightarrow> zsockIf_Open newzs joined ip port ifn z = (Ok (), z') \<longrightarrow>
      zsockIf_OpenSend newzs' ifAddr ip' port' ifn' z' = (Err ErrOpened, z') \<and> z_bRead z') \<and>
   netIf_Close closeN (snd (netIf_Close closeN n)) = (Err ErrClosed, snd (netIf_Close closeN n)) \<and>
   sockIf_Close closeS (snd (sockIf_Close closeS s)) = (Err ErrClosed, snd (sockIf_Close closeS s)) \<and>
   zsockIf_Close closeZ (snd (zsockIf_Close closeZ z)) = (Err ErrClosed, snd (zsockIf_Close closeZ z))"
  using net_if.open_ok net_if.open_fresh(1) net_if.open_opened net_if.close_twice
    sock_if.open_ok sock_if.open_fresh(1) sock_if.open_opened sock_if.close_twice
    zsock_if.open_ok zsock_if.open_fresh(1) zsock_if.send_opened zsock_if.close_twice
  by metis

theorem open_close_protocol_witness:
  "\<exists>n'. netIf_Open (\<lambda>p. Inr 3) [224, 0, 0, 1] 5858 newNetIf = (Ok (), n') \<and>
    netIf_Open (\<lambda>p. Inr 4) [224, 0, 0, 2] 5859 n' = (Err ErrOpened, n') \<and> net_bRead n'"
proof -
  obtain n' where "netIf_Open (\<lambda>p. Inr 3) [224, 0, 0, 1] 5858 newNetIf = (Ok (), n')"
    by (simp add: netIf_Open_def newNetIf_def)
  then show ?thesis
    using open_close_protocol [where listen = "\<lambda>p. Inr 3" and ip = "[224, 0, 0, 1]" and port = 5858
        and n = newNetIf and listen' = "\<lambda>p. Inr 4" and ip' = "[224, 0, 0, 2]" and port' = 5859]
    by blast
qed

text \<open>
  Receiving in the mode the client chooses: \<open>doMsgLoop\<close> uses \<open>Recv\<close> on a net connection,
  \<open>MRecv\<close> on a socket connection and \<open>Listen\<close> on a ring connection, never an operation the
  connection answers with \<open>errNotSupport\<close>; and \<open>MRecv\<close> on a socket connection that was opened
  returns exactly the datagrams the kernel put into its buffers.
\<close>

theorem receive_mode_supported:
  assumes "sockIf_Open socket bind ip port s0 = (Ok (), s)"
    and "recvmmsg (sock_fd s) (replicate 32 2048) = Ok (dgrams, a)" "dgrams \<noteq> []" "length dgrams \<le> 32"
    "\<forall>d \<in> set dgrams. length d \<le> 2048"
  shows "recv_mode_of (SockIf s) = UseMRecv \<and> (\<exists>adr. sockIf_MRecv recvmmsg s = Ok (dgrams, Some adr)) \<and>
    recv_mode_of (NetIf n) = UseRecv \<and> recv_mode_of (ZSockIf z) = UseListen"
proof -
  let ?bs = "replicate 32 (replicate 2048 (0 :: byte))"
  have s: "sock_bRead s" "sock_buffs s = ?bs"
    using assms(1) by (auto simp: sockIf_Open_def Let_def maxBatch_def split: if_splits sum.splits option.splits)
  have got: "map2 (\<lambda>buf d. take (length d) (go_copy buf d)) ?bs dgrams = dgrams"
    using assms(4,5) by (intro nth_equalityI) (auto simp: go_copy_def)
  have ne: "[] \<notin> set (take MAX_BATCH ?bs)" by (auto simp: MAX_BATCH_def dest: in_set_takeD)
  have "Recvmmsg recvmmsg (sock_fd s) ?bs = Ok (length dgrams, dgrams @ drop (length dgrams) ?bs, a)"
    using assms(2) got ne by (simp add: Recvmmsg_def Let_def MAX_BATCH_def)
  then have "\<exists>adr. sockIf_MRecv recvmmsg s = Ok (dgrams, Some adr)"
    using s assms(3) by (simp add: sockIf_MRecv_def)
  then show ?thesis
    by (simp add: recv_mode_of_def sockIf_Enabled_def netIf_Enabled_def zsockIf_Enabled_def
        HasMmsg_def HasRingBuffer_def)
qed

theorem receive_mode_supported_witness:
  "\<exists>s. sockIf_Open (Inr 3) (\<lambda>p. None) [224, 0, 0, 1] 5858 newSockIf = (Ok (), s) \<and>
    (\<exists>adr. sockIf_MRecv (\<lambda>fd ls. Ok ([[1, 2]], \<lparr>sa_Port = 7, sa_Addr = [10, 0, 0, 1]\<rparr>)) s = Ok ([[1, 2]], Some adr))"
proof -
  obtain s where s: "sockIf_Open (Inr 3) (\<lambda>p. None) [224, 0, 0, 1] 5858 newSockIf = (Ok (), s)"
    by (simp add: sockIf_Open_def newSockIf_def Let_def)
  from receive_mode_supported [OF s, of "\<lambda>fd ls. Ok ([[1, 2]], \<lparr>sa_Port = 7, sa_Addr = [10, 0, 0, 1]\<rparr>)" "[[1, 2]]"
      "\<lparr>sa_Port = 7, sa_Addr = [10, 0, 0, 1]\<rparr>"] s
  show ?thesis by auto
qed

subsection \<open>Paths that go wrong\<close>

text \<open>
  A socket connection whose \<open>bind\<close> fails keeps the descriptor it has closed: it reports itself
  open to the next \<open>Open\<close>, and \<open>Close\<close> closes the descriptor a second time.
\<close>

lemma bind_failure_keeps_descriptor:
  assumes "sock_fd c < 0" "bind port = Some e"
  shows "\<exists>c'. sockIf_Open (Inr fd) bind ip port c = (Err e, c') \<and>
    sockIf_Open socket' bind' ip' port' c' = (Err ErrOpened, c') \<and>
    fst (sockIf_Close close c') = close (int fd)"
  using assms by (simp add: sockIf_Open_def sockIf_Close_def set_dst_def Let_def)

text \<open>A ring connection opened without an interface dereferences a nil pointer.\<close>

lemma open_without_interface_panics:
  "z_zs c = None \<Longrightarrow> zsockIf_Open newzs joined ip port None c = (Panic NilDeref, c)"
  by (simp add: zsockIf_Open_def)

text \<open>
  \<open>NewIf\<close> is total: the registered names give the socket and ring connections, every other
  name the net connection.
\<close>

lemma NewIf_cases:
  "NewIf m = (if m = ''sock'' \<or> m = ''socket'' then SockIf newSockIf
    else if m = ''zsock'' \<or> m = ''zsocket'' then ZSockIf newZSockIf else NetIf newNetIf)"
  by (auto simp: NewIf_def ifFuncMap_def)

end
