(* ===== verification/Sys_Socket.thy ===== *)
theory Sys_Socket
  imports C_Memory Net_Addr
begin

section \<open>System calls (socket.go, rsocket.go)\<close>

text \<open>
  The wrappers over the C library. The operating system is a parameter: a record with one
  operation per C function, each a function of its arguments and of the state of the world
  \<open>'w\<close> that gives its return value with \<open>errno\<close> and what it writes through pointers. Every
  wrapper is a definition over this record: which bytes it passes, which return values it
  takes for an error, and what it gives back. Options and levels are named, not numbered.
  The address structs are byte lists: \<open>sockaddr_in\<close> is the family in host order, the port
  in network order, the address and eight bytes of padding.
\<close>

subsection \<open>The operating system\<close>

type_synonym c_ret = "int \<times> int"

datatype so_level = SOL_SOCKET | SOL_PACKET | IPPROTO_IP

datatype so_name =
    SO_RCVBUF | SO_SNDBUF | SO_BROADCAST | SO_REUSEADDR
  | PACKET_VERSION | PACKET_LOSS | PACKET_RX_RING | PACKET_TX_RING | PACKET_STATISTICS
  | PACKET_ADD_MEMBERSHIP
  | IP_ADD_MEMBERSHIP | IP_DROP_MEMBERSHIP | IP_MULTICAST_IF | IP_MULTICAST_TTL | IP_MULTICAST_LOOP

record PollFd =
  pfd_fd :: int
  pfd_events :: u16
  pfd_revents :: u16

record 'w c_os =
  c_socket :: "int \<Rightarrow> int \<Rightarrow> int \<Rightarrow> 'w \<Rightarrow> c_ret \<times> 'w"
  c_close :: "int \<Rightarrow> 'w \<Rightarrow> c_ret \<times> 'w"
  c_getsockopt :: "int \<Rightarrow> so_level \<Rightarrow> so_name \<Rightarrow> nat \<Rightarrow> 'w \<Rightarrow> (c_ret \<times> byte list) \<times> 'w"
  c_setsockopt :: "int \<Rightarrow> so_level \<Rightarrow> so_name \<Rightarrow> byte list \<Rightarrow> 'w \<Rightarrow> c_ret \<times> 'w"
  c_poll :: "PollFd list \<Rightarrow> int \<Rightarrow> 'w \<Rightarrow> (c_ret \<times> PollFd list) \<times> 'w"
  c_getsockname :: "int \<Rightarrow> 'w \<Rightarrow> (c_ret \<times> byte list) \<times> 'w"
  c_bind :: "int \<Rightarrow> byte list \<Rightarrow> 'w \<Rightarrow> c_ret \<times> 'w"
  c_recvfrom :: "int \<Rightarrow> nat \<Rightarrow> int \<Rightarrow> 'w \<Rightarrow> (c_ret \<times> byte list \<times> byte list) \<times> 'w"
  c_sendto :: "int \<Rightarrow> byte list option \<Rightarrow> int \<Rightarrow> byte list option \<Rightarrow> 'w \<Rightarrow> c_ret \<times> 'w"
  c_sendmmsg :: "int \<Rightarrow> (byte list \<times> byte list) list \<Rightarrow> 'w \<Rightarrow> c_ret \<times> 'w"

text \<open>An operating system on which every call does nothing and succeeds.\<close>

definition null_os :: "'w c_os" where
  "null_os = \<lparr>c_socket = \<lambda>d t p w. ((3, 0), w), c_close = \<lambda>fd w. ((0, 0), w),
     c_getsockopt = \<lambda>fd l n k w. (((0, 0), []), w), c_setsockopt = \<lambda>fd l n b w. ((0, 0), w),
     c_poll = \<lambda>fds t w. (((0, 0), fds), w), c_getsockname = \<lambda>fd w. (((0, 0), []), w),
     c_bind = \<lambda>fd a w. ((0, 0), w), c_recvfrom = \<lambda>fd n f w. (((-1, 11), [], []), w),
     c_sendto = \<lambda>fd b f a w. ((0, 0), w), c_sendmmsg = \<lambda>fd b w. ((0, 0), w)\<rparr>"

definition EAGAIN :: int where "EAGAIN = 11"
definition EWOULDBLOCK :: int where "EWOULDBLOCK = 11"

text \<open>\<open>if bad { err = syscall.Errno(C.errNo()) }\<close>.\<close>

definition errno_if :: "bool \<Rightarrow> int \<Rightarrow> go_error option" where
  "errno_if bad errno = (if bad then Some (Errno errno) else None)"

subsection \<open>Socket addresses in memory\<close>

definition newSockaddrIn :: "int \<Rightarrow> byte list \<Rightarrow> byte list" where
  "newSockaddrIn port addr = le_bytes 2 (2 :: u16) @ PutUint16 (of_int port) @ take 4 addr @ replicate 8 0"

definition copyAddr :: "byte list \<Rightarrow> byte list" where
  "copyAddr saddr = take 4 (drop 4 saddr)"

definition sin_port_host :: "byte list \<Rightarrow> int" where
  "sin_port_host saddr = uint (Uint16 (take 2 (drop 2 saddr)))"

text \<open>The struct of 16 zero bytes that the code allocates, after the kernel wrote \<open>sa\<close> into it.\<close>

definition written_sockaddr :: "byte list \<Rightarrow> byte list" where
  "written_sockaddr sa = go_copy (replicate 16 0) sa"

definition sockaddr_of :: "byte list \<Rightarrow> SockaddrInet4" where
  "sockaddr_of saddr = \<lparr>sa_Port = sin_port_host saddr, sa_Addr = copyAddr saddr\<rparr>"

subsection \<open>Options\<close>

text \<open>
  \<open>GetsockoptInt\<close> offers the eight bytes of a zero \<open>int\<close>; \<open>SetsockoptInt\<close> passes the first
  four bytes of its argument, as \<open>optLen\<close> is the size of a C int.
\<close>

definition GetsockoptInt ::
  "'w c_os \<Rightarrow> int \<Rightarrow> so_level \<Rightarrow> so_name \<Rightarrow> 'w \<Rightarrow> (int \<times> go_error option) \<times> 'w" where
  "GetsockoptInt os fd level opt w =
     (let (((ret, errno), bytes), w1) = c_getsockopt os fd level opt 8 w;
          value = sint (le_word (go_copy (replicate 8 0) bytes) :: u64)
      in ((value, errno_if (ret \<noteq> 0) errno), w1))"

definition SetsockoptInt ::
  "'w c_os \<Rightarrow> int \<Rightarrow> so_level \<Rightarrow> so_name \<Rightarrow> int \<Rightarrow> 'w \<Rightarrow> go_error option \<times> 'w" where
  "SetsockoptInt os fd level opt val w =
     (let ((ret, errno), w1) = c_setsockopt os fd level opt (take 4 (le_bytes 8 (of_int val :: u64))) w
      in (errno_if (ret \<noteq> 0) errno, w1))"

definition Getsockopt ::
  "'w c_os \<Rightarrow> int \<Rightarrow> so_level \<Rightarrow> so_name \<Rightarrow> byte list \<Rightarrow> nat \<Rightarrow> 'w \<Rightarrow> (byte list \<times> go_error option) \<times> 'w" where
  "Getsockopt os fd level opt val vallen w =
     (let (((ret, errno), bytes), w1) = c_getsockopt os fd level opt vallen w
      in ((go_copy val bytes, errno_if (ret \<noteq> 0) errno), w1))"

definition Setsockopt ::
  "'w c_os \<Rightarrow> int \<Rightarrow> so_level \<Rightarrow> so_name \<Rightarrow> byte list \<Rightarrow> 'w \<Rightarrow> go_error option \<times> 'w" where
  "Setsockopt os fd level opt val w =
     (let ((ret, errno), w1) = c_setsockopt os fd level opt val w
      in (errno_if (ret \<noteq> 0) errno, w1))"

subsection \<open>Sockets\<close>

definition Socket :: "'w c_os \<Rightarrow> int \<Rightarrow> int \<Rightarrow> int \<Rightarrow> 'w \<Rightarrow> (int \<times> go_error option) \<times> 'w" where
  "Socket os domain typ proto w =
     (let ((fd, errno), w1) = c_socket os domain typ proto w
      in ((fd, errno_if (fd < 0) errno), w1))"

definition Close :: "'w c_os \<Rightarrow> int \<Rightarrow> 'w \<Rightarrow> go_error option \<times> 'w" where
  "Close os fd w =
     (let ((ret, errno), w1) = c_close os fd w
      in (errno_if (ret < 0) errno, w1))"

definition maxPollFd :: nat where "maxPollFd = 16"

text \<open>
  \<open>Poll\<close> works on a copy of at most 16 entries; what the kernel reports in \<open>revents\<close> stays
  in the copy, so the caller's entries come back as they were.
\<close>

definition Poll ::
  "'w c_os \<Rightarrow> PollFd list \<Rightarrow> int \<Rightarrow> 'w \<Rightarrow> (int \<times> go_error option \<times> PollFd list) \<times> 'w" where
  "Poll os fds timeo w =
     (if fds = [] then ((0, None, fds), w)
      else
        let cfds = take maxPollFd fds;
            (((ret, errno), cfds'), w1) = c_poll os cfds timeo w
        in ((ret, errno_if (ret < 0) errno, fds), w1))"

definition LocalAddr :: "'w c_os \<Rightarrow> int \<Rightarrow> 'w \<Rightarrow> SockaddrInet4 option \<times> 'w" where
  "LocalAddr os fd w =
     (let (((ret, errno), sa), w1) = c_getsockname os fd w
      in (if ret < 0 then None else Some (sockaddr_of (written_sockaddr sa)), w1))"

definition Bind :: "'w c_os \<Rightarrow> int \<Rightarrow> SockaddrInet4 \<Rightarrow> 'w \<Rightarrow> go_error option \<times> 'w" where
  "Bind os fd laddr w =
     (let ((ret, errno), w1) = c_bind os fd (newSockaddrIn (sa_Port laddr) (sa_Addr laddr)) w
      in (errno_if (ret < 0) errno, w1))"

text \<open>
  A call that would block is no error: \<open>Recvfrom\<close> then reports 0 bytes, \<open>Sendto\<close> the
  negative return value. The result of \<open>Recvfrom\<close> has the buffer after the call.
\<close>

definition hard_error :: "int \<Rightarrow> int \<Rightarrow> go_error option" where
  "hard_error ret errno =
     errno_if (ret < 0 \<and> errno \<noteq> 0 \<and> errno \<noteq> EAGAIN \<and> errno \<noteq> EWOULDBLOCK) errno"

definition Recvfrom ::
  "'w c_os \<Rightarrow> int \<Rightarrow> byte list \<Rightarrow> int \<Rightarrow> 'w \<Rightarrow>
   (int \<times> SockaddrInet4 \<times> go_error option \<times> byte list) outcome \<times> 'w" where
  "Recvfrom os fd p flags w =
     (if p = [] then (Panic IndexOutOfRange, w)
      else
        let (((ret, errno), data, sa), w1) = c_recvfrom os fd (length p) flags w;
            err = hard_error ret errno;
            n = (if ret < 0 then 0 else ret)
        in (Ok (n, sockaddr_of (written_sockaddr sa), err, go_copy p data), w1))"

definition Sendto ::
  "'w c_os \<Rightarrow> int \<Rightarrow> byte list option \<Rightarrow> int \<Rightarrow> SockaddrInet4 option \<Rightarrow> 'w \<Rightarrow>
   (int \<times> go_error option) outcome \<times> 'w" where
  "Sendto os fd p flags to w =
     (case (to, p) of
        (Some a, Some buf) \<Rightarrow>
          if buf = [] then (Panic IndexOutOfRange, w)
          else
            let ((ret, errno), w1) =
                  c_sendto os fd (Some buf) flags (Some (newSockaddrIn (sa_Port a) (sa_Addr a))) w
            in (Ok (ret, hard_error ret errno), w1)
      | _ \<Rightarrow>
          let ((ret, errno), w1) = c_sendto os fd None 0 None w
          in (Ok (ret, hard_error ret errno), w1))"

subsection \<open>Tuning and multicast\<close>

definition ReserveRecvBuf :: "'w c_os \<Rightarrow> int \<Rightarrow> 'w \<Rightarrow> 'w" where
  "ReserveRecvBuf os fd w =
     (let bLen = 4 * 1024 * 1024;
          (r1, w1) = GetsockoptInt os fd SOL_SOCKET SO_RCVBUF w;
          (r2, w2) = SetsockoptInt os fd SOL_SOCKET SO_RCVBUF bLen w1;
          (r3, w3) = GetsockoptInt os fd SOL_SOCKET SO_RCVBUF w2
      in w3)"

definition ReserveSendBuf :: "'w c_os \<Rightarrow> int \<Rightarrow> 'w \<Rightarrow> 'w" where
  "ReserveSendBuf os fd w =
     (let bLen = 2 * 1024 * 1024;
          (r1, w1) = GetsockoptInt os fd SOL_SOCKET SO_SNDBUF w;
          (r2, w2) = SetsockoptInt os fd SOL_SOCKET SO_SNDBUF bLen w1;
          (r3, w3) = GetsockoptInt os fd SOL_SOCKET SO_SNDBUF w2
      in w3)"

text \<open>
  The membership request: the group, then the address of the interface, or without an
  interface the one in the environment variable \<open>LADDR\<close>, or zero. \<open>laddr\<close> is its value.
\<close>

definition join_mreq ::
  "(string \<Rightarrow> byte list) \<Rightarrow> string \<Rightarrow> byte list \<Rightarrow> net_Interface option \<Rightarrow> byte list" where
  "join_mreq parseIP laddr maddr ifn =
     (let mreq = put_slice (replicate 8 0) 0 4 maddr
      in case ifn of
           Some i \<Rightarrow>
             (case getIfAddr parseIP ifn of
                (adr, None) \<Rightarrow> put_slice mreq 4 8 (To4 adr)
              | (adr, Some e) \<Rightarrow> mreq)
         | None \<Rightarrow>
             let adr = parseIP laddr
             in if adr \<noteq> [] then put_slice mreq 4 8 (To4 adr) else mreq)"

definition JoinMulticast ::
  "'w c_os \<Rightarrow> (string \<Rightarrow> byte list) \<Rightarrow> string \<Rightarrow> int \<Rightarrow> byte list \<Rightarrow> net_Interface option \<Rightarrow> 'w \<Rightarrow>
   go_error option \<times> 'w" where
  "JoinMulticast os parseIP laddr fd maddr ifn w =
     (let mreq = join_mreq parseIP laddr maddr ifn;
          ((res, errno), w1) = c_setsockopt os fd IPPROTO_IP IP_ADD_MEMBERSHIP mreq w
      in (errno_if (res \<noteq> 0) errno, w1))"

definition SetMulticastInterface ::
  "'w c_os \<Rightarrow> (string \<Rightarrow> byte list) \<Rightarrow> int \<Rightarrow> net_Interface option \<Rightarrow> 'w \<Rightarrow> go_error option \<times> 'w" where
  "SetMulticastInterface os parseIP fd ifn w =
     (case ifn of
        None \<Rightarrow> (None, w)
      | Some i \<Rightarrow>
          (case getIfAddr parseIP ifn of
             (adr, Some e) \<Rightarrow> (Some e, w)
           | (adr, None) \<Rightarrow>
               let sVal = go_copy (replicate 4 0) (To4 adr);
                   ((res, errno), w1) = c_setsockopt os fd IPPROTO_IP IP_MULTICAST_IF sVal w
               in (errno_if (res \<noteq> 0) errno, w1)))"

definition ExitMulticast :: "'w c_os \<Rightarrow> int \<Rightarrow> byte list \<Rightarrow> 'w \<Rightarrow> 'w" where
  "ExitMulticast os fd maddr w =
     (let mreq = put_slice (replicate 8 0) 0 4 (To4 maddr)
      in snd (c_setsockopt os fd IPPROTO_IP IP_DROP_MEMBERSHIP mreq w))"

definition SetMulticastTTL :: "'w c_os \<Rightarrow> int \<Rightarrow> int \<Rightarrow> 'w \<Rightarrow> go_error option \<times> 'w" where
  "SetMulticastTTL os fd ttl = SetsockoptInt os fd IPPROTO_IP IP_MULTICAST_TTL ttl"

definition SetMulticastLoop :: "'w c_os \<Rightarrow> int \<Rightarrow> bool \<Rightarrow> 'w \<Rightarrow> go_error option \<times> 'w" where
  "SetMulticastLoop os fd bLoop =
     SetsockoptInt os fd IPPROTO_IP IP_MULTICAST_LOOP (if bLoop then 1 else 0)"

definition SetBroadcast :: "'w c_os \<Rightarrow> int \<Rightarrow> bool \<Rightarrow> 'w \<Rightarrow> go_error option \<times> 'w" where
  "SetBroadcast os fd bLoop =
     SetsockoptInt os fd SOL_SOCKET SO_BROADCAST (if bLoop then 1 else 0)"

subsection \<open>Waiting\<close>

text \<open>
  \<open>Sleep\<close> yields until the clock has moved on by the interval: \<open>clock k\<close> is its \<open>k\<close>-th
  reading in nanoseconds, the reading before the loop is number 0, and the value is the number
  of the reading that ended the loop. On a clock that stands still the loop does not end.
\<close>

partial_function (option) sleep_loop :: "(nat \<Rightarrow> int) \<Rightarrow> int \<Rightarrow> int \<Rightarrow> nat \<Rightarrow> nat option" where
  "sleep_loop clock tt interv k =
     (let du = clock k - tt
      in if du < interv then sleep_loop clock tt interv (k + 1) else Some k)"

definition Sleep :: "(nat \<Rightarrow> int) \<Rightarrow> int \<Rightarrow> nat option" where
  "Sleep clock interv = sleep_loop clock (clock 0) interv 1"

end
