(* ===== verification/Rx_Ring.thy ===== *)
theory Rx_Ring
  imports Sys_Socket ZSocket_Ring
begin

section \<open>The receive ring of the packet socket (zsocket.go)\<close>

text \<open>
  The receive side of \<open>ZSocket\<close>. With version 3 of the ring the kernel fills blocks: a block
  descriptor, then a chain of packets, each behind a \<open>tpacket3_hdr\<close>; \<open>listenV3\<close> waits for
  the next block, \<open>walkBlock\<close> calls back for its packets and gives the block back. With
  version 1 there is one packet per frame behind a \<open>tpacket_hdr\<close>, and \<open>listenV1\<close> goes over
  the frames. The structs of linux/if_packet.h are fields in the mapped memory.

  A callback is a function on a state \<open>'s\<close> of its own, which may panic. One round of a
  listening loop is a definition; what the kernel does to the memory between rounds is
  described where the loops are put together.
\<close>

type_synonym 's callback = "byte list \<Rightarrow> u16 \<Rightarrow> u16 \<Rightarrow> 's \<Rightarrow> 's outcome"

definition TP_STATUS_KERNEL :: u32 where "TP_STATUS_KERNEL = 0"
definition TP_STATUS_USER :: u32 where "TP_STATUS_USER = 1"

subsection \<open>Version 3: packets in blocks\<close>

text \<open>The descriptor of a block.\<close>

definition block_status :: "byte list \<Rightarrow> u32" where "block_status bd = fld 4 8 bd"
definition num_pkts :: "byte list \<Rightarrow> u32" where "num_pkts bd = fld 4 12 bd"
definition offset_to_first_pkt :: "byte list \<Rightarrow> u32" where "offset_to_first_pkt bd = fld 4 16 bd"

text \<open>The header of a packet; \<open>raw\<close> is the memory from the header on.\<close>

definition tp3_next_offset :: "byte list \<Rightarrow> u32" where "tp3_next_offset raw = fld 4 0 raw"
definition tp3_snaplen :: "byte list \<Rightarrow> u32" where "tp3_snaplen raw = fld 4 12 raw"
definition tp3_len :: "byte list \<Rightarrow> u32" where "tp3_len raw = fld 4 16 raw"
definition tp3_status :: "byte list \<Rightarrow> u32" where "tp3_status raw = fld 4 20 raw"
definition tp3_mac :: "byte list \<Rightarrow> u16" where "tp3_mac raw = fld 2 24 raw"

definition V3_macStart :: "byte list \<Rightarrow> u16" where
  "V3_macStart raw = tp3_mac raw"

definition V3_tpLen :: "byte list \<Rightarrow> u16" where
  "V3_tpLen raw = ucast (tp3_len raw)"

definition V3_tpSnapLen :: "byte list \<Rightarrow> u16" where
  "V3_tpSnapLen raw = ucast (tp3_snaplen raw)"

definition V3_rxReady :: "byte list \<Rightarrow> bool" where
  "V3_rxReady raw \<longleftrightarrow> tp3_status raw AND TP_STATUS_USER = TP_STATUS_USER"

definition V3_rxSet :: "byte list \<Rightarrow> byte list" where
  "V3_rxSet raw = put_fld 4 20 TP_STATUS_KERNEL raw"

text \<open>
  The loop of \<open>walkBlock\<close> over the remaining packets, from the header at \<open>offs\<close> on. The
  fields the code reads from a packet header lie in its first 26 bytes; \<open>bs\<close> is the block
  size of the socket. The counter of packets is threaded with the state of the callback.
\<close>

fun walk_loop ::
  "'s callback \<Rightarrow> nat \<Rightarrow> byte list \<Rightarrow> nat \<Rightarrow> nat \<Rightarrow> goint \<times> 's \<Rightarrow> (goint \<times> 's) outcome" where
  "walk_loop fx bs bd 0 offs (packets, s) = Ok (packets, s)"
| "walk_loop fx bs bd (Suc n) offs (packets, s) =
     (if length bd \<le> offs then Panic IndexOutOfRange
      else if length bd < offs + 26 then Panic UnsafeAccess
      else
        let raw = drop offs bd
        in if tp3_len raw = 0 then Ok (packets, s)
           else
             let macSt = unat (V3_macStart raw)
             in if length raw < macSt then Panic SliceOutOfRange
                else
                  bind_outcome (fx (drop macSt raw) (V3_tpLen raw) (V3_tpSnapLen raw) s) (\<lambda>s'.
                    let packets' = packets + 1
                    in if tp3_next_offset raw = 0 then Ok (packets', s')
                       else
                         let offs' = offs + unat (tp3_next_offset raw)
                         in if bs \<le> offs' then Ok (packets', s')
                            else walk_loop fx bs bd n offs' (packets', s')))"

text \<open>The result has the block after it was given back.\<close>

definition walkBlock ::
  "'s callback \<Rightarrow> nat \<Rightarrow> byte list \<Rightarrow> goint \<times> 's \<Rightarrow> (byte list \<times> goint \<times> 's) outcome" where
  "walkBlock fx bs bd st =
     (if bd = [] then Panic IndexOutOfRange
      else if length bd < 20 then Panic UnsafeAccess
      else
        bind_outcome (walk_loop fx bs bd (unat (num_pkts bd)) (unat (offset_to_first_pkt bd)) st)
          (\<lambda>st'. Ok (put_fld 4 8 TP_STATUS_KERNEL bd, st')))"

subsection \<open>Version 1: packets in frames\<close>

text \<open>
  A \<open>ringFrame\<close> of the receive ring: its memory, with the \<open>tpacket_hdr\<close> in front, and the
  flag \<open>mb\<close>.
\<close>

record rxFrame =
  rx_raw :: "byte list"
  rx_mb :: u32

definition tp_status_at :: "byte list \<Rightarrow> u64" where "tp_status_at raw = fld 8 0 raw"

definition rf_macStart :: "byte list \<Rightarrow> u16" where
  "rf_macStart raw = fld 2 16 raw"

definition rf_tpLen :: "byte list \<Rightarrow> u16" where
  "rf_tpLen raw = ucast (fld 4 8 raw :: u32)"

definition rf_tpSnapLen :: "byte list \<Rightarrow> u16" where
  "rf_tpSnapLen raw = ucast (fld 4 12 raw :: u32)"

text \<open>Whether the frame is the user's and \<open>mb\<close> could be taken; the frame after it.\<close>

definition rxReady :: "rxFrame \<Rightarrow> bool \<times> rxFrame" where
  "rxReady rf =
     (if tp_status_at (rx_raw rf) AND ucast TP_STATUS_USER = ucast TP_STATUS_USER \<and> rx_mb rf = 0
      then (True, rf\<lparr>rx_mb := 1\<rparr>) else (False, rf))"

definition rxSet :: "rxFrame \<Rightarrow> rxFrame" where
  "rxSet rf = rf\<lparr>rx_raw := put_fld 8 0 (ucast TP_STATUS_KERNEL :: u64) (rx_raw rf), rx_mb := 0\<rparr>"

subsection \<open>The socket\<close>

text \<open>The fields of \<open>ZSocket\<close>; those of the transmit side are the field \<open>zs_tx\<close>.\<close>

record ZSocketFull =
  zs_socket :: int
  zs_ifIndex :: int
  zs_version :: int
  statPackets :: goint
  numBlocks :: nat
  zs_blockSize :: nat
  zs_raw :: "byte list"
  nPackets :: u64
  nDrops :: u64
  listening :: bool
  zs_frameNum :: nat
  zs_frameSize :: u16
  rxEnabled :: bool
  rxFrames :: "rxFrame list"
  zs_Polls :: goint
  zs_tx :: ZSocket

definition TPacketVersion1 :: int where "TPacketVersion1 = 0"
definition TPacketVersion2 :: int where "TPacketVersion2 = 1"
definition TPacketVersion3 :: int where "TPacketVersion3 = 2"
definition TPacketVersionHighestAvailable :: int where "TPacketVersionHighestAvailable = -1"

definition OptTPacketVersion_String :: "int \<Rightarrow> string" where
  "OptTPacketVersion_String t =
     (if t = TPacketVersion1 then ''V1''
      else if t = TPacketVersion2 then ''V2''
      else if t = TPacketVersion3 then ''V3''
      else if t = TPacketVersionHighestAvailable then ''HighestAvailable''
      else ''InvalidVersion'')"

definition TPACKET_HDRLEN :: u16 where "TPACKET_HDRLEN = 52"

definition Fd :: "ZSocketFull \<Rightarrow> int" where
  "Fd zs = zs_socket zs"

definition MaxPackets :: "ZSocketFull \<Rightarrow> nat" where
  "MaxPackets zs = zs_frameNum zs"

definition MaxPacketSize :: "ZSocketFull \<Rightarrow> u16" where
  "MaxPacketSize zs = zs_frameSize zs - TPACKET_HDRLEN"

definition Stats :: "ZSocketFull \<Rightarrow> goint \<times> goint" where
  "Stats zs = (statPackets zs, zs_Polls zs)"

text \<open>
  \<open>updateSocketStats\<close>: the statistics struct has the counters of packets and drops in its
  first two words; that of version 3 has one more word.
\<close>

definition updateSocketStats :: "'w c_os \<Rightarrow> ZSocketFull \<Rightarrow> 'w \<Rightarrow> (go_error option \<times> ZSocketFull) \<times> 'w" where
  "updateSocketStats os zs w =
     (let size = (if zs_version zs = TPacketVersion3 then 12 else 8);
          ((ss, err), w1) =
            Getsockopt os (zs_socket zs) SOL_PACKET PACKET_STATISTICS (replicate size 0) size w
      in case err of
           Some e \<Rightarrow> ((Some e, zs), w1)
         | None \<Rightarrow>
             ((None, zs\<lparr>nPackets := nPackets zs + ucast (fld 4 0 ss :: u32),
                        nDrops := nDrops zs + ucast (fld 4 4 ss :: u32)\<rparr>), w1))"

definition zs_Close :: "'w c_os \<Rightarrow> ZSocketFull \<Rightarrow> 'w \<Rightarrow> (go_error option \<times> ZSocketFull) \<times> 'w" where
  "zs_Close os zs w =
     (let ((err, zs1), w1) = updateSocketStats os zs w;
          ((ret, errno), w2) = c_close os (zs_socket zs1) w1
      in ((errno_if (ret < 0) errno, zs1), w2))"

subsection \<open>Listening\<close>

text \<open>
  A round of a listening loop goes on, with the index of the next block or frame, the socket
  and the state of the callback, or returns an error.
\<close>

datatype 's round = Goon nat ZSocketFull 's | Return go_error ZSocketFull 's

definition POLLIN :: u16 where "POLLIN = 1"
definition POLLERR :: u16 where "POLLERR = 8"

definition listen_pfd :: "ZSocketFull \<Rightarrow> PollFd list" where
  "listen_pfd zs = [\<lparr>pfd_fd = zs_socket zs, pfd_events = POLLERR OR POLLIN, pfd_revents = 0\<rparr>]"

text \<open>One round of \<open>listenV3\<close> at block \<open>bdIndex\<close>.\<close>

definition listenV3_round ::
  "'w c_os \<Rightarrow> 's callback \<Rightarrow> nat \<Rightarrow> ZSocketFull \<Rightarrow> 's \<Rightarrow> 'w \<Rightarrow> 's round outcome \<times> 'w" where
  "listenV3_round os fx bdIndex zs s w =
     (let offs = bdIndex * zs_blockSize zs
      in if length (zs_raw zs) < offs + zs_blockSize zs then (Panic SliceOutOfRange, w)
         else
           let bd = slot (zs_blockSize zs) (zs_raw zs) bdIndex
           in if bd = [] then (Panic IndexOutOfRange, w)
              else if length bd < 20 then (Panic UnsafeAccess, w)
              else if block_status bd AND TP_STATUS_USER = 0 then
                let zs1 = zs\<lparr>zs_Polls := zs_Polls zs + 1\<rparr>;
                    ((n, e1, pfd), w1) = Poll os (listen_pfd zs) 50 w
                in if n = 0 then (Ok (Goon bdIndex zs1 s), w1)
                   else if 0 < pfd_revents (pfd ! 0) AND POLLERR then (Ok (Goon bdIndex zs1 s), w1)
                   else (case e1 of
                           Some e \<Rightarrow> (Ok (Return e zs1 s), w1)
                         | None \<Rightarrow> (Ok (Goon bdIndex zs1 s), w1))
              else
                (bind_outcome (walkBlock fx (zs_blockSize zs) bd (statPackets zs, s)) (\<lambda>(bd', packets, s').
                   if numBlocks zs = 0 then Panic DivideByZero
                   else Ok (Goon ((bdIndex + 1) mod numBlocks zs)
                     (zs\<lparr>zs_raw := put_slot (zs_blockSize zs) (zs_raw zs) bdIndex bd',
                         statPackets := packets\<rparr>) s')), w))"

text \<open>
  One round of \<open>listenV1\<close> at frame \<open>rxIndex\<close>: a frame that is ready is handed over, else the
  loop polls. The header fields the code reads lie in the first 18 bytes. Both the frame list and the mapped memory are the same storage; the frames are
  what the code goes through.
\<close>

definition listenV1_round ::
  "'w c_os \<Rightarrow> 's callback \<Rightarrow> nat \<Rightarrow> ZSocketFull \<Rightarrow> 's \<Rightarrow> 'w \<Rightarrow> 's round outcome \<times> 'w" where
  "listenV1_round os fx rxIndex zs s w =
     (if length (rxFrames zs) \<le> rxIndex then (Panic IndexOutOfRange, w)
      else if rx_raw (rxFrames zs ! rxIndex) = [] then (Panic IndexOutOfRange, w)
      else if length (rx_raw (rxFrames zs ! rxIndex)) < 18 then (Panic UnsafeAccess, w)
      else
        (case rxReady (rxFrames zs ! rxIndex) of
           (True, rf) \<Rightarrow>
             let raw = rx_raw rf; macSt = unat (rf_macStart raw)
             in if length raw < macSt then (Panic SliceOutOfRange, w)
                else
                  (bind_outcome (fx (drop macSt raw) (rf_tpLen raw) (rf_tpSnapLen raw) s) (\<lambda>s'.
                     if zs_frameNum zs = 0 then Panic DivideByZero
                     else Ok (Goon ((rxIndex + 1) mod zs_frameNum zs)
                       (zs\<lparr>statPackets := statPackets zs + 1,
                           rxFrames := (rxFrames zs)[rxIndex := rxSet rf]\<rparr>) s')), w)
         | (False, rf) \<Rightarrow>
             let zs1 = zs\<lparr>zs_Polls := zs_Polls zs + 1\<rparr>;
                 ((n, e1, pfd), w1) = Poll os (listen_pfd zs) (-1) w
             in (case e1 of
                   Some e \<Rightarrow> (Ok (Return e zs1 s), w1)
                 | None \<Rightarrow> (Ok (Goon rxIndex zs1 s), w1))))"

text \<open>\<open>Listen\<close> up to its loop: the loop it enters, and the socket it marks as listening.\<close>

datatype listen_loop = LoopV1 | LoopV3

definition Listen :: "ZSocketFull \<Rightarrow> listen_loop outcome \<times> ZSocketFull" where
  "Listen zs =
     (if \<not> rxEnabled zs then (Err (ErrText ''the RX ring is disabled on this socket''), zs)
      else if listening zs then (Err (ErrText ''there is already a listener on this socket''), zs)
      else (Ok (if zs_version zs = TPacketVersion3 then LoopV3 else LoopV1), zs\<lparr>listening := True\<rparr>))"

end
