(* ===== verification/Slot_Ring.thy ===== *)
theory Slot_Ring
  imports Ring_Lemmas Step_System
begin

section \<open>A ring of slots between two parties\<close>

text \<open>
  The protocol behind both versions of the receive ring. A ring of \<open>n\<close> slots in a memory \<open>'m\<close>:
  the kernel fills the slot at its index when it owns it and passes it on, the reader takes the
  slot at its own index when it was passed on and gives it back. \<open>slot_step\<close> interleaves the
  two in any order; its state has the memory, the two indices, all that was put in and all that
  was taken out. The locale \<open>slot_ring\<close> is the contract of the two operations; under it the
  ring is a queue: what was taken out is a prefix of what was put in, and what is missing lies
  in the slots that wait for the reader.
\<close>

record ('m, 'p) slot_state =
  memory :: 'm
  rd_index :: nat
  kn_index :: nat
  put_in :: "'p list"
  taken :: "'p list"

inductive slot_step ::
  "nat \<Rightarrow> ('m \<Rightarrow> nat \<Rightarrow> bool) \<Rightarrow> ('m \<Rightarrow> nat \<Rightarrow> 'p list \<Rightarrow> 'm \<Rightarrow> bool) \<Rightarrow>
   ('m \<Rightarrow> nat \<Rightarrow> 'p list \<Rightarrow> nat \<Rightarrow> 'm \<Rightarrow> bool) \<Rightarrow>
   ('m, 'p) slot_state \<Rightarrow> ('m, 'p) slot_state \<Rightarrow> bool"
  for n owned fill reader where
  kernel_fills: "\<not> owned (memory x) (kn_index x) \<Longrightarrow> fill (memory x) (kn_index x) ps m \<Longrightarrow>
    slot_step n owned fill reader x
      (x\<lparr>memory := m, kn_index := (kn_index x + 1) mod n, put_in := put_in x @ ps\<rparr>)"
| reader_round: "reader (memory x) (rd_index x) ps r m \<Longrightarrow>
    slot_step n owned fill reader x (x\<lparr>memory := m, rd_index := r, taken := taken x @ ps\<rparr>)"

definition slot_start :: "nat \<Rightarrow> ('m \<Rightarrow> bool) \<Rightarrow> ('m \<Rightarrow> nat \<Rightarrow> bool) \<Rightarrow> ('m, 'p) slot_state \<Rightarrow> bool" where
  "slot_start n good owned x \<longleftrightarrow> 0 < n \<and> good (memory x) \<and> (\<forall>i < n. \<not> owned (memory x) i) \<and>
     rd_index x = 0 \<and> kn_index x = 0 \<and> put_in x = [] \<and> taken x = []"

text \<open>The slots from the reader's index on that wait for it, with their contents.\<close>

definition slot_inv ::
  "nat \<Rightarrow> ('m \<Rightarrow> bool) \<Rightarrow> ('m \<Rightarrow> nat \<Rightarrow> bool) \<Rightarrow> ('m \<Rightarrow> nat \<Rightarrow> 'p list \<Rightarrow> bool) \<Rightarrow>
   ('m, 'p) slot_state \<Rightarrow> bool" where
  "slot_inv n good owned holds x \<longleftrightarrow>
     good (memory x) \<and> rd_index x < n \<and>
     (\<exists>c pss. c \<le> n \<and> kn_index x = (rd_index x + c) mod n \<and>
        (\<forall>i < n. owned (memory x) i \<longleftrightarrow> i \<in> set (ring_seq n (rd_index x) c)) \<and>
        list_all2 (holds (memory x)) (ring_seq n (rd_index x) c) pss \<and>
        put_in x = taken x @ concat pss)"

lemma slot_inv_holds:
  assumes "slot_inv n good owned holds x" "owned (memory x) (rd_index x)"
  obtains ps where "holds (memory x) (rd_index x) ps"
proof -
  from assms(1) obtain c pss where r: "rd_index x < n"
    and own: "\<forall>i < n. owned (memory x) i \<longleftrightarrow> i \<in> set (ring_seq n (rd_index x) c)"
    and hold: "list_all2 (holds (memory x)) (ring_seq n (rd_index x) c) pss"
    by (auto simp: slot_inv_def)
  from own r assms(2) obtain d where "c = Suc d" by (cases c) auto
  with hold that show ?thesis by (auto simp: list_all2_Cons1)
qed

text \<open>
  A reader that starts at slot 0 of a ring on which the kernel may already have passed on the
  first \<open>k\<close> slots, with the packets \<open>pss\<close>.
\<close>

definition first_passed ::
  "nat \<Rightarrow> ('m \<Rightarrow> nat \<Rightarrow> bool) \<Rightarrow> ('m \<Rightarrow> nat \<Rightarrow> 'p list \<Rightarrow> bool) \<Rightarrow> 'm \<Rightarrow> nat \<Rightarrow> 'p list list \<Rightarrow> bool" where
  "first_passed n owned holds m k pss \<longleftrightarrow>
     0 < n \<and> k \<le> n \<and> (\<forall>i < n. owned m i \<longleftrightarrow> i < k) \<and> list_all2 (holds m) [0..<k] pss"

definition opened :: "nat \<Rightarrow> 'm \<Rightarrow> nat \<Rightarrow> 'p list list \<Rightarrow> ('m, 'p) slot_state" where
  "opened n m k pss =
     \<lparr>memory = m, rd_index = 0, kn_index = k mod n, put_in = concat pss, taken = []\<rparr>"

lemma opened_inv:
  assumes "good m" "first_passed n owned holds m k pss"
  shows "slot_inv n good owned holds (opened n m k pss)"
proof -
  have k: "0 < n" "k \<le> n" using assms(2) by (auto simp: first_passed_def)
  have "ring_seq n 0 k = map (\<lambda>j. j mod n) [0..<k]" using ring_seq_map [OF k(1), of k] by simp
  also have "\<dots> = [0..<k]" using k(2) by (intro map_idI) simp
  finally have "ring_seq n 0 k = [0..<k]" .
  with assms k show ?thesis
    by (auto simp: slot_inv_def opened_def first_passed_def intro!: exI [of _ k] exI [of _ pss])
qed

locale slot_ring =
  fixes n :: nat
    and good :: "'m \<Rightarrow> bool"
    and owned :: "'m \<Rightarrow> nat \<Rightarrow> bool"
    and holds :: "'m \<Rightarrow> nat \<Rightarrow> 'p list \<Rightarrow> bool"
    and fill :: "'m \<Rightarrow> nat \<Rightarrow> 'p list \<Rightarrow> 'm \<Rightarrow> bool"
    and reader :: "'m \<Rightarrow> nat \<Rightarrow> 'p list \<Rightarrow> nat \<Rightarrow> 'm \<Rightarrow> bool"
  assumes fill_good: "good m \<Longrightarrow> k < n \<Longrightarrow> fill m k ps m' \<Longrightarrow>
      good m' \<and> owned m' k \<and> holds m' k ps"
    and fill_others: "good m \<Longrightarrow> k < n \<Longrightarrow> fill m k ps m' \<Longrightarrow> i < n \<Longrightarrow> i \<noteq> k \<Longrightarrow>
      owned m' i = owned m i \<and> (owned m i \<longrightarrow> holds m i qs \<longrightarrow> holds m' i qs)"
    and take_owned: "good m \<Longrightarrow> r < n \<Longrightarrow> owned m r \<Longrightarrow> holds m r qs \<Longrightarrow> reader m r ps r' m' \<Longrightarrow>
      ps = qs \<and> r' = (r + 1) mod n \<and> good m' \<and> \<not> owned m' r"
    and take_others: "good m \<Longrightarrow> r < n \<Longrightarrow> owned m r \<Longrightarrow> reader m r ps r' m' \<Longrightarrow> i < n \<Longrightarrow> i \<noteq> r \<Longrightarrow>
      owned m' i = owned m i \<and> (holds m i qs \<longrightarrow> holds m' i qs)"
    and idle: "good m \<Longrightarrow> r < n \<Longrightarrow> \<not> owned m r \<Longrightarrow> reader m r ps r' m' \<Longrightarrow>
      ps = [] \<and> r' = r \<and> good m' \<and> (\<forall>i. owned m' i = owned m i) \<and> (\<forall>i qs. holds m i qs \<longrightarrow> holds m' i qs)"
begin

lemma slot_fill_inv:
  assumes "slot_inv n good owned holds x" "\<not> owned (memory x) (kn_index x)"
    "fill (memory x) (kn_index x) ps m"
  shows "slot_inv n good owned holds
    (x\<lparr>memory := m, kn_index := (kn_index x + 1) mod n, put_in := put_in x @ ps\<rparr>)"
proof -
  let ?r = "rd_index x" and ?k = "kn_index x"
  from assms(1) obtain c pss where g: "good (memory x)" "?r < n" and c: "c \<le> n" "?k = (?r + c) mod n"
    and own: "\<forall>i < n. owned (memory x) i \<longleftrightarrow> i \<in> set (ring_seq n ?r c)"
    and hold: "list_all2 (holds (memory x)) (ring_seq n ?r c) pss"
    and log: "put_in x = taken x @ concat pss"
    by (auto simp: slot_inv_def)
  have k: "?k < n" using c(2) g(2) by simp
  have "c \<noteq> n"
  proof
    assume "c = n"
    then have "?k = ?r" using c(2) g(2) by simp
    with \<open>c = n\<close> g(2) have "?k \<in> set (ring_seq n ?r c)" by (cases n) auto
    with own k assms(2) show False by blast
  qed
  with c(1) have cn: "Suc c \<le> n" by simp
  have seq: "ring_seq n ?r (Suc c) = ring_seq n ?r c @ [?k]"
    using g(2) c(2) by (simp add: ring_seq_append del: ring_seq.simps)
  have out: "?k \<notin> set (ring_seq n ?r c)" using ring_end_free [of ?r n c] g(2) cn c(2) by simp
  note f = fill_good [OF g(1) k assms(3)] fill_others [OF g(1) k assms(3)]
  have own': "\<forall>i < n. owned m i \<longleftrightarrow> i \<in> set (ring_seq n ?r (Suc c))"
    using own f out by (auto simp: seq simp del: ring_seq.simps)
  have "list_all2 (holds m) (ring_seq n ?r c) pss"
  proof (rule list.rel_mono_strong [OF hold])
    fix i qs
    assume i: "i \<in> set (ring_seq n ?r c)" "holds (memory x) i qs"
    then have "i < n" using g(2) ring_seq_less by blast
    with i out f(2) [of i qs] own show "holds m i qs" by metis
  qed
  with f have "list_all2 (holds m) (ring_seq n ?r (Suc c)) (pss @ [ps])"
    by (simp add: seq list_all2_appendI del: ring_seq.simps)
  moreover have "(?k + 1) mod n = (?r + Suc c) mod n" using c(2) by (simp add: mod_Suc_eq)
  ultimately show ?thesis using f own' cn g log unfolding slot_inv_def
    by (intro conjI exI [of _ "Suc c"] exI [of _ "pss @ [ps]"]) simp_all
qed

lemma slot_take_inv:
  assumes "slot_inv n good owned holds x" "reader (memory x) (rd_index x) ps r m"
  shows "slot_inv n good owned holds (x\<lparr>memory := m, rd_index := r, taken := taken x @ ps\<rparr>)"
proof (cases "owned (memory x) (rd_index x)")
  case False
  from assms(1) have "good (memory x)" "rd_index x < n" by (auto simp: slot_inv_def)
  from idle [OF this False assms(2)]
  have *: "ps = []" "r = rd_index x" "good m" "\<And>i. owned m i = owned (memory x) i"
    "\<And>i qs. holds (memory x) i qs \<Longrightarrow> holds m i qs" by auto
  from assms(1) obtain c pss where inv: "rd_index x < n" "c \<le> n" "kn_index x = (rd_index x + c) mod n"
    "\<forall>i < n. owned (memory x) i \<longleftrightarrow> i \<in> set (ring_seq n (rd_index x) c)"
    "list_all2 (holds (memory x)) (ring_seq n (rd_index x) c) pss" "put_in x = taken x @ concat pss"
    by (auto simp: slot_inv_def)
  have "list_all2 (holds m) (ring_seq n (rd_index x) c) pss"
    using inv(5) by (rule list_all2_mono) (rule *(5))
  with * inv show ?thesis unfolding slot_inv_def
    by (intro conjI exI [of _ c] exI [of _ pss]) simp_all
next
  case True
  let ?r = "rd_index x"
  from assms(1) obtain c pss where g: "good (memory x)" "?r < n" and c: "c \<le> n" "kn_index x = (?r + c) mod n"
    and own: "\<forall>i < n. owned (memory x) i \<longleftrightarrow> i \<in> set (ring_seq n ?r c)"
    and hold: "list_all2 (holds (memory x)) (ring_seq n ?r c) pss"
    and log: "put_in x = taken x @ concat pss"
    by (auto simp: slot_inv_def)
  from True own g(2) obtain d where d: "c = Suc d" by (cases c) auto
  let ?t = "ring_seq n ((?r + 1) mod n) d"
  have seq: "ring_seq n ?r c = ?r # ?t" by (simp add: d)
  from hold obtain qs qss where pss: "pss = qs # qss" "holds (memory x) ?r qs"
    "list_all2 (holds (memory x)) ?t qss" by (auto simp: seq list_all2_Cons1)
  have out: "?r \<notin> set ?t" using distinct_ring_seq [OF g(2) c(1)] by (simp add: seq)
  note t = take_owned [OF g True pss(2) assms(2)] take_others [OF g True assms(2)]
  have own': "\<forall>i < n. owned m i \<longleftrightarrow> i \<in> set ?t"
    using own t out by (metis seq list.set_intros set_ConsD)
  have hold': "list_all2 (holds m) ?t qss"
  proof (rule list.rel_mono_strong [OF pss(3)])
    fix i qs
    assume i: "i \<in> set ?t" "holds (memory x) i qs"
    have "(?r + 1) mod n < n" using g(2) by simp
    then have "i < n" using i(1) ring_seq_less by blast
    with i out t(2) [of i qs] show "holds m i qs" by metis
  qed
  have "kn_index x = ((?r + 1) mod n + d) mod n" using c(2) d by (simp add: mod_add_left_eq)
  then show ?thesis using t own' hold' c(1) d g log pss(1) unfolding slot_inv_def
    by (intro conjI exI [of _ d] exI [of _ qss]) simp_all
qed

lemma slot_step_inv:
  "slot_inv n good owned holds x \<Longrightarrow> slot_step n owned fill reader x y \<Longrightarrow> slot_inv n good owned holds y"
  by (erule slot_step.cases) (use slot_fill_inv slot_take_inv in auto)

lemma slot_start_inv: "slot_start n good owned x \<Longrightarrow> slot_inv n good owned holds x"
  unfolding slot_start_def slot_inv_def by (auto intro!: exI [of _ "0 :: nat"] exI [of _ "[]"])

end

sublocale slot_ring \<subseteq> ring_system: step_system "slot_start n good owned" "slot_step n owned fill reader"
  "slot_inv n good owned holds"
  by unfold_locales (auto intro: slot_step_inv slot_start_inv)

context slot_ring
begin

text \<open>The ring is a queue, and an idle reader has taken everything.\<close>

lemma taken_prefix:
  assumes "reachable (slot_start n good owned) (slot_step n owned fill reader) x"
  shows "\<exists>rest. put_in x = taken x @ rest"
  using ring_system.reachable_inv [OF assms] by (auto simp: slot_inv_def)

lemma idle_taken_all:
  assumes "reachable (slot_start n good owned) (slot_step n owned fill reader) x"
    and "\<not> owned (memory x) (rd_index x)"
  shows "taken x = put_in x"
proof -
  from ring_system.reachable_inv [OF assms(1)] obtain c pss where
    r: "rd_index x < n" and own: "\<forall>i < n. owned (memory x) i \<longleftrightarrow> i \<in> set (ring_seq n (rd_index x) c)"
    and hold: "list_all2 (holds (memory x)) (ring_seq n (rd_index x) c) pss"
    and log: "put_in x = taken x @ concat pss"
    by (auto simp: slot_inv_def)
  have "c = 0" using own r assms(2) by (cases c) auto
  with hold log show ?thesis by simp
qed

end

end
