(* ===== verification/Rx_Lemmas.thy ===== *)
theory Rx_Lemmas
  imports Rx_Ring Slot_Ring
begin

section \<open>Both receive rings are queues of packets\<close>

text \<open>
  What a block or a frame holds, as a relation between memory and packets; that \<open>walkBlock\<close>
  and the rounds of the listening loops call back for exactly these packets; and that the
  kernel and the listening loop implement the protocol of \<open>Slot_Ring\<close>, for the blocks of
  version 3 and for the frames of version 1. A packet is its captured bytes with its length on
  the wire. What the kernel writes is described by \<open>v3_fill\<close> and \<open>v1_fill\<close>: it passes on a slot
  of its own that holds packets, may write anything into other slots of its own, and leaves the
  slots of the reader alone.
\<close>

type_synonym pkt = "byte list \<times> u16"

subsection \<open>Callbacks on captured bytes\<close>

text \<open>
  A callback that first cuts the slice it gets to the captured length, as that of
  \<open>zsockIf.Listen\<close> does; \<open>feed\<close> runs it over a list of packets, \<open>rx_record\<close> only writes them
  down.
\<close>

definition captured :: "(byte list \<Rightarrow> u16 \<Rightarrow> 's \<Rightarrow> 's outcome) \<Rightarrow> 's callback" where
  "captured g f len snap s =
     (if length f < unat snap then Panic SliceOutOfRange else g (take (unat snap) f) len s)"

fun feed :: "(byte list \<Rightarrow> u16 \<Rightarrow> 's \<Rightarrow> 's outcome) \<Rightarrow> pkt list \<Rightarrow> 's \<Rightarrow> 's outcome" where
  "feed g [] s = Ok s"
| "feed g (p # ps) s = bind_outcome (g (fst p) (snd p) s) (feed g ps)"

definition write_down :: "byte list \<Rightarrow> u16 \<Rightarrow> pkt list \<Rightarrow> pkt list outcome" where
  "write_down d l log = Ok (log @ [(d, l)])"

definition rx_record :: "pkt list callback" where
  "rx_record = captured write_down"

lemma feed_write_down [simp]: "feed write_down ps log = Ok (log @ ps)"
  by (induction ps arbitrary: log) (auto simp: write_down_def)

lemma unat_ucast_u32_u16: "unat (w :: u32) < 65536 \<Longrightarrow> unat (ucast w :: u16) = unat w"
  by (simp add: unsigned_ucast_eq take_bit_nat_eq_self_iff)

subsection \<open>Packets in a block\<close>

definition pkt_at :: "byte list \<Rightarrow> nat \<Rightarrow> pkt \<Rightarrow> bool" where
  "pkt_at bd offs p \<longleftrightarrow>
     (let raw = drop offs bd; mac = unat (tp3_mac raw)
      in offs + 26 \<le> length bd \<and> tp3_len raw \<noteq> 0 \<and> unat (tp3_snaplen raw) = length (fst p) \<and>
         int (length (fst p)) < 65536 \<and> offs + mac + length (fst p) \<le> length bd \<and>
         take (length (fst p)) (drop mac raw) = fst p \<and> V3_tpLen raw = snd p)"

fun chain_at :: "nat \<Rightarrow> byte list \<Rightarrow> nat \<Rightarrow> pkt list \<Rightarrow> bool" where
  "chain_at bs bd offs [] \<longleftrightarrow> True"
| "chain_at bs bd offs [p] \<longleftrightarrow> pkt_at bd offs p"
| "chain_at bs bd offs (p # q # ps) \<longleftrightarrow>
     pkt_at bd offs p \<and> tp3_next_offset (drop offs bd) \<noteq> 0 \<and>
     offs + unat (tp3_next_offset (drop offs bd)) < bs \<and>
     chain_at bs bd (offs + unat (tp3_next_offset (drop offs bd))) (q # ps)"

definition block_holds :: "nat \<Rightarrow> byte list \<Rightarrow> pkt list \<Rightarrow> bool" where
  "block_holds bs bd ps \<longleftrightarrow>
     unat (num_pkts bd) = length ps \<and> chain_at bs bd (unat (offset_to_first_pkt bd)) ps"

lemma walk_loop_step:
  assumes "pkt_at bd offs p"
  shows "walk_loop (captured g) bs bd (Suc n) offs (k, s) =
    bind_outcome (g (fst p) (snd p) s) (\<lambda>s'.
      let next = unat (tp3_next_offset (drop offs bd))
      in if next = 0 \<or> bs \<le> offs + next then Ok (k + 1, s')
         else walk_loop (captured g) bs bd n (offs + next) (k + 1, s'))"
proof -
  let ?raw = "drop offs bd"
  let ?mac = "unat (tp3_mac ?raw)"
  from assms have *: "offs + 26 \<le> length bd" "tp3_len ?raw \<noteq> 0" "V3_tpLen ?raw = snd p"
    "length (fst p) < 65536" "unat (tp3_snaplen ?raw) = length (fst p)"
    "offs + ?mac + length (fst p) \<le> length bd" "take (length (fst p)) (drop ?mac ?raw) = fst p"
    by (auto simp: pkt_at_def Let_def)
  have snap: "unat (V3_tpSnapLen ?raw) = length (fst p)"
    using * by (simp add: V3_tpSnapLen_def unat_ucast_u32_u16)
  have "captured g (drop ?mac ?raw) (V3_tpLen ?raw) (V3_tpSnapLen ?raw) s = g (fst p) (snd p) s"
    using * snap by (auto simp: captured_def)
  then have call: "captured g (drop (unat (V3_macStart ?raw)) ?raw) (V3_tpLen ?raw) (V3_tpSnapLen ?raw) s =
    g (fst p) (snd p) s" by (simp add: V3_macStart_def)
  have bounds: "\<not> length bd \<le> offs" "\<not> length bd < offs + 26" "\<not> length ?raw < unat (V3_macStart ?raw)"
    using *(1,6) by (auto simp: V3_macStart_def)
  show ?thesis unfolding walk_loop.simps Let_def call if_not_P [OF bounds(1)] if_not_P [OF bounds(2)]
      if_not_P [OF bounds(3)] if_not_P [OF *(2)]
    by (cases "g (fst p) (snd p) s") (simp_all add: unat_eq_zero)
qed

lemma walk_loop_chain:
  "chain_at bs bd offs ps \<Longrightarrow>
   walk_loop (captured g) bs bd (length ps) offs (k, s) =
     bind_outcome (feed g ps s) (\<lambda>s'. Ok (k + of_nat (length ps), s'))"
proof (induction bs bd offs ps arbitrary: k s rule: chain_at.induct)
  case (2 bs bd offs p)
  then have "pkt_at bd offs p" by simp
  from walk_loop_step [OF this, of g bs 0 k s] show ?case
    by (cases "g (fst p) (snd p) s") (simp_all add: Let_def)
next
  case (3 bs bd offs p q ps)
  let ?next = "unat (tp3_next_offset (drop offs bd))"
  from "3.prems" have p: "pkt_at bd offs p" and nx: "?next \<noteq> 0" "\<not> bs \<le> offs + ?next"
    and rest: "chain_at bs bd (offs + ?next) (q # ps)" by (auto simp: unat_eq_zero)
  have "walk_loop (captured g) bs bd (length (p # q # ps)) offs (k, s) =
    bind_outcome (g (fst p) (snd p) s)
      (\<lambda>s'. walk_loop (captured g) bs bd (length (q # ps)) (offs + ?next) (k + 1, s'))"
    using nx walk_loop_step [OF p, of g bs "length (q # ps)" k s]
    by (cases "g (fst p) (snd p) s") (simp_all add: Let_def del: walk_loop.simps)
  also have "\<dots> = bind_outcome (g (fst p) (snd p) s) (\<lambda>s'.
      bind_outcome (feed g (q # ps) s') (\<lambda>s''. Ok (k + 1 + of_nat (length (q # ps)), s'')))"
    by (simp only: "3.IH" [OF rest])
  finally show ?case by (cases "g (fst p) (snd p) s") (simp_all add: algebra_simps)
qed simp

lemma walkBlock_chain:
  assumes "20 \<le> length bd" "block_holds bs bd ps"
  shows "walkBlock (captured g) bs bd (k, s) =
    bind_outcome (feed g ps s) (\<lambda>s'. Ok (put_fld 4 8 TP_STATUS_KERNEL bd, k + of_nat (length ps), s'))"
  using assms walk_loop_chain [of bs bd "unat (offset_to_first_pkt bd)" ps g k s]
  by (cases "feed g ps s") (auto simp: walkBlock_def block_holds_def)

lemma block_status_given_back:
  "12 \<le> length bd \<Longrightarrow> block_status (put_fld 4 8 TP_STATUS_KERNEL bd) = 0"
  by (simp add: block_status_def fld_put_fld TP_STATUS_KERNEL_def)

subsection \<open>Version 3 as a ring of slots\<close>

definition v3_block :: "ZSocketFull \<Rightarrow> nat \<Rightarrow> byte list" where
  "v3_block zs i = slot (zs_blockSize zs) (zs_raw zs) i"

definition v3_good :: "nat \<Rightarrow> ZSocketFull \<Rightarrow> bool" where
  "v3_good n zs \<longleftrightarrow> numBlocks zs = n \<and> 20 \<le> zs_blockSize zs \<and> n * zs_blockSize zs \<le> length (zs_raw zs)"

definition v3_owned :: "ZSocketFull \<Rightarrow> nat \<Rightarrow> bool" where
  "v3_owned zs i \<longleftrightarrow> block_status (v3_block zs i) AND TP_STATUS_USER \<noteq> 0"

definition v3_holds :: "ZSocketFull \<Rightarrow> nat \<Rightarrow> pkt list \<Rightarrow> bool" where
  "v3_holds zs i ps \<longleftrightarrow> block_holds (zs_blockSize zs) (v3_block zs i) ps"

definition v3_fill :: "nat \<Rightarrow> ZSocketFull \<Rightarrow> nat \<Rightarrow> pkt list \<Rightarrow> ZSocketFull \<Rightarrow> bool" where
  "v3_fill n zs k ps zs' \<longleftrightarrow>
     (\<exists>raw. zs' = zs\<lparr>zs_raw := raw\<rparr> \<and> length raw = length (zs_raw zs)) \<and>
     v3_owned zs' k \<and> v3_holds zs' k ps \<and>
     (\<forall>i < n. i \<noteq> k \<longrightarrow> (if v3_owned zs i then v3_block zs' i = v3_block zs i else \<not> v3_owned zs' i))"

definition v3_reader :: "'w c_os \<Rightarrow> ZSocketFull \<Rightarrow> nat \<Rightarrow> pkt list \<Rightarrow> nat \<Rightarrow> ZSocketFull \<Rightarrow> bool" where
  "v3_reader os zs r ps r' zs' \<longleftrightarrow>
     (\<exists>log w w'. listenV3_round os rx_record r zs log w = (Ok (Goon r' zs' (log @ ps)), w'))"

lemma v3_bounds:
  assumes "v3_good n zs" "i < n"
  shows "i * zs_blockSize zs + zs_blockSize zs \<le> length (zs_raw zs)" "length (v3_block zs i) = zs_blockSize zs"
  using assms slot_fits [of i n "zs_blockSize zs"] length_slot [of n "zs_blockSize zs" "zs_raw zs" i]
  by (auto simp: v3_good_def v3_block_def)

text \<open>A round on a block of the reader.\<close>

definition v3_after :: "nat \<Rightarrow> nat \<Rightarrow> ZSocketFull \<Rightarrow> ZSocketFull" where
  "v3_after r m zs =
     zs\<lparr>zs_raw := put_slot (zs_blockSize zs) (zs_raw zs) r (put_fld 4 8 TP_STATUS_KERNEL (v3_block zs r)),
        statPackets := statPackets zs + of_nat m\<rparr>"

lemma listenV3_owned:
  assumes "v3_good n zs" "r < n" "v3_owned zs r" "v3_holds zs r ps"
  shows "listenV3_round os (captured g) r zs s w =
    (bind_outcome (feed g ps s) (\<lambda>s'. Ok (Goon ((r + 1) mod n) (v3_after r (length ps) zs) s')), w)"
proof -
  note b = v3_bounds [OF assms(1,2)]
  have n: "numBlocks zs = n" "20 \<le> zs_blockSize zs" using assms(1) by (simp_all add: v3_good_def)
  have "20 \<le> length (v3_block zs r)" using b n by simp
  from walkBlock_chain [OF this, of "zs_blockSize zs" ps g "statPackets zs" s] assms(4)
  have wb: "walkBlock (captured g) (zs_blockSize zs) (v3_block zs r) (statPackets zs, s) =
    bind_outcome (feed g ps s)
      (\<lambda>s'. Ok (put_fld 4 8 TP_STATUS_KERNEL (v3_block zs r), statPackets zs + of_nat (length ps), s'))"
    by (simp add: v3_holds_def)
  have "v3_block zs r \<noteq> []" using b n by auto
  moreover have "\<not> length (zs_raw zs) < r * zs_blockSize zs + zs_blockSize zs" using b(1) by simp
  ultimately show ?thesis
    using n b wb assms(2,3)
    by (cases "feed g ps s")
      (auto simp: listenV3_round_def Let_def v3_owned_def v3_after_def v3_block_def [symmetric])
qed

text \<open>A round on a block of the kernel changes nothing but the counter of polls.\<close>

lemma listenV3_idle:
  assumes "v3_good n zs" "r < n" "\<not> v3_owned zs r"
  shows "\<exists>res w'. listenV3_round os fx r zs s w = (Ok res, w') \<and>
    (let zs1 = zs\<lparr>zs_Polls := zs_Polls zs + 1\<rparr> in res = Goon r zs1 s \<or> (\<exists>e. res = Return e zs1 s))"
proof -
  note b = v3_bounds [OF assms(1,2)]
  have n: "20 \<le> zs_blockSize zs" using assms(1) by (simp add: v3_good_def)
  have "v3_block zs r \<noteq> []" using b n by auto
  then show ?thesis using b n assms(3)
    by (auto simp: listenV3_round_def Let_def v3_owned_def v3_block_def [symmetric]
        split: prod.splits option.splits)
qed

lemma v3_after_block:
  assumes "v3_good n zs" "r < n" "i < n"
  shows "v3_block (v3_after r m zs) i =
    (if i = r then put_fld 4 8 TP_STATUS_KERNEL (v3_block zs r) else v3_block zs i)"
  using assms v3_bounds [OF assms(1,2)] slot_put_slot [of n "zs_blockSize zs" "zs_raw zs" r i]
  by (auto simp: v3_block_def v3_after_def v3_good_def)

lemma v3_after_good: "v3_good n zs \<Longrightarrow> r < n \<Longrightarrow> v3_good n (v3_after r m zs)"
  using v3_bounds [of n zs r] length_put_slot [of n "zs_blockSize zs" "zs_raw zs" r]
  by (auto simp: v3_good_def v3_after_def)

lemma v3_after_given_back:
  assumes "v3_good n zs" "r < n"
  shows "\<not> v3_owned (v3_after r m zs) r"
proof -
  have "12 \<le> length (v3_block zs r)" using v3_bounds [OF assms] assms(1) by (simp add: v3_good_def)
  then show ?thesis
    by (simp add: v3_owned_def v3_after_block [OF assms assms(2)] block_status_given_back)
qed

lemma v3_reader_owned:
  assumes "v3_good n zs" "r < n" "v3_owned zs r" "v3_holds zs r qs" "v3_reader os zs r ps r' zs'"
  shows "ps = qs \<and> r' = (r + 1) mod n \<and> zs' = v3_after r (length qs) zs"
  using assms(5) listenV3_owned [OF assms(1-4), of os write_down]
  by (auto simp: v3_reader_def rx_record_def)

text \<open>Without knowing what the block holds: the block is given back, the others are untouched.\<close>

lemma v3_reader_frame:
  assumes "v3_good n zs" "r < n" "v3_owned zs r" "v3_reader os zs r ps r' zs'"
  shows "\<exists>m. zs' = v3_after r 0 zs\<lparr>statPackets := m\<rparr>"
proof -
  note b = v3_bounds [OF assms(1,2)]
  have n: "20 \<le> zs_blockSize zs" using assms(1) by (simp add: v3_good_def)
  have ne: "v3_block zs r \<noteq> []" using b n by auto
  from assms(4) obtain log w w' where
    "listenV3_round os rx_record r zs log w = (Ok (Goon r' zs' (log @ ps)), w')"
    by (auto simp: v3_reader_def)
  then show ?thesis using b n ne assms(3)
    by (auto simp: listenV3_round_def walkBlock_def Let_def v3_owned_def v3_after_def
        v3_block_def [symmetric] bind_outcome_Ok split: prod.splits option.splits if_splits)
qed

interpretation v3: slot_ring n "v3_good n" v3_owned v3_holds "v3_fill n" "v3_reader os" for n os
proof unfold_locales
  fix m k ps m'
  assume "v3_good n m" "k < n" "v3_fill n m k ps m'"
  then show "v3_good n m' \<and> v3_owned m' k \<and> v3_holds m' k ps"
    by (auto simp: v3_fill_def v3_good_def)
next
  fix m k ps m' i qs
  assume "v3_good n m" "k < n" "v3_fill n m k ps m'" "i < n" "i \<noteq> k"
  then show "v3_owned m' i = v3_owned m i \<and> (v3_owned m i \<longrightarrow> v3_holds m i qs \<longrightarrow> v3_holds m' i qs)"
    by (auto simp: v3_fill_def v3_owned_def v3_holds_def split: if_splits)
next
  fix m r qs ps r' m'
  assume *: "v3_good n m" "r < n" "v3_owned m r" "v3_holds m r qs" "v3_reader os m r ps r' m'"
  show "ps = qs \<and> r' = (r + 1) mod n \<and> v3_good n m' \<and> \<not> v3_owned m' r"
    using v3_reader_owned [OF *] v3_after_good [OF *(1,2)] v3_after_given_back [OF *(1,2)] by simp
next
  fix m r ps r' m' i qs
  assume *: "v3_good n m" "r < n" "v3_owned m r" "v3_reader os m r ps r' m'" "i < n" "i \<noteq> r"
  obtain k where k: "m' = v3_after r 0 m\<lparr>statPackets := k\<rparr>" using v3_reader_frame [OF *(1-4)] by blast
  have "v3_block m' i = v3_block m i" "zs_blockSize m' = zs_blockSize m"
    using v3_after_block [OF *(1,2,5), of 0] *(6) k by (simp_all add: v3_block_def v3_after_def)
  then show "v3_owned m' i = v3_owned m i \<and> (v3_holds m i qs \<longrightarrow> v3_holds m' i qs)"
    by (simp add: v3_owned_def v3_holds_def)
next
  fix m r ps r' m'
  assume *: "v3_good n m" "r < n" "\<not> v3_owned m r" "v3_reader os m r ps r' m'"
  then obtain log w w' where "listenV3_round os rx_record r m log w = (Ok (Goon r' m' (log @ ps)), w')"
    by (auto simp: v3_reader_def)
  with listenV3_idle [OF *(1-3), of os rx_record log w]
  show "ps = [] \<and> r' = r \<and> v3_good n m' \<and> (\<forall>i. v3_owned m' i = v3_owned m i) \<and>
    (\<forall>i qs. v3_holds m i qs \<longrightarrow> v3_holds m' i qs)"
    using *(1) by (auto simp: Let_def v3_good_def v3_owned_def v3_holds_def v3_block_def)
qed

subsection \<open>Version 1 as a ring of slots\<close>

definition v1_raw :: "ZSocketFull \<Rightarrow> nat \<Rightarrow> byte list" where
  "v1_raw zs i = rx_raw (rxFrames zs ! i)"

definition v1_good :: "nat \<Rightarrow> ZSocketFull \<Rightarrow> bool" where
  "v1_good n zs \<longleftrightarrow> zs_frameNum zs = n \<and> length (rxFrames zs) = n \<and>
     (\<forall>i < n. 18 \<le> length (v1_raw zs i) \<and> rx_mb (rxFrames zs ! i) = 0)"

definition v1_owned :: "ZSocketFull \<Rightarrow> nat \<Rightarrow> bool" where
  "v1_owned zs i \<longleftrightarrow> tp_status_at (v1_raw zs i) AND ucast TP_STATUS_USER = ucast TP_STATUS_USER"

definition frame_holds :: "byte list \<Rightarrow> pkt \<Rightarrow> bool" where
  "frame_holds raw p \<longleftrightarrow>
     unat (rf_tpSnapLen raw) = length (fst p) \<and> unat (rf_macStart raw) + length (fst p) \<le> length raw \<and>
     take (length (fst p)) (drop (unat (rf_macStart raw)) raw) = fst p \<and> rf_tpLen raw = snd p"

definition v1_holds :: "ZSocketFull \<Rightarrow> nat \<Rightarrow> pkt list \<Rightarrow> bool" where
  "v1_holds zs i ps \<longleftrightarrow> (\<exists>p. ps = [p] \<and> frame_holds (v1_raw zs i) p)"

definition v1_fill :: "nat \<Rightarrow> ZSocketFull \<Rightarrow> nat \<Rightarrow> pkt list \<Rightarrow> ZSocketFull \<Rightarrow> bool" where
  "v1_fill n zs k ps zs' \<longleftrightarrow>
     (\<exists>frs. zs' = zs\<lparr>rxFrames := frs\<rparr> \<and> length frs = length (rxFrames zs)) \<and>
     (\<forall>i < n. length (v1_raw zs' i) = length (v1_raw zs i) \<and> rx_mb (rxFrames zs' ! i) = rx_mb (rxFrames zs ! i)) \<and>
     v1_owned zs' k \<and> v1_holds zs' k ps \<and>
     (\<forall>i < n. i \<noteq> k \<longrightarrow> (if v1_owned zs i then v1_raw zs' i = v1_raw zs i else \<not> v1_owned zs' i))"

definition v1_reader :: "'w c_os \<Rightarrow> ZSocketFull \<Rightarrow> nat \<Rightarrow> pkt list \<Rightarrow> nat \<Rightarrow> ZSocketFull \<Rightarrow> bool" where
  "v1_reader os zs r ps r' zs' \<longleftrightarrow>
     (\<exists>log w w'. listenV1_round os rx_record r zs log w = (Ok (Goon r' zs' (log @ ps)), w'))"

definition v1_after :: "nat \<Rightarrow> ZSocketFull \<Rightarrow> ZSocketFull" where
  "v1_after r zs = zs\<lparr>statPackets := statPackets zs + 1,
     rxFrames := (rxFrames zs)[r := rxSet ((rxFrames zs ! r)\<lparr>rx_mb := 1\<rparr>)]\<rparr>"

lemma v1_bounds:
  assumes "v1_good n zs" "r < n"
  shows "\<not> length (rxFrames zs) \<le> r" "rx_raw (rxFrames zs ! r) \<noteq> []" "\<not> length (rx_raw (rxFrames zs ! r)) < 18"
    "rxReady (rxFrames zs ! r) =
      (if v1_owned zs r then (True, (rxFrames zs ! r)\<lparr>rx_mb := 1\<rparr>) else (False, rxFrames zs ! r))"
  using assms by (fastforce simp: v1_good_def v1_raw_def rxReady_def v1_owned_def)+

lemma listenV1_owned:
  assumes "v1_good n zs" "r < n" "v1_owned zs r" "v1_holds zs r ps"
  shows "listenV1_round os (captured g) r zs s w =
    (bind_outcome (feed g ps s) (\<lambda>s'. Ok (Goon ((r + 1) mod n) (v1_after r zs) s')), w)"
proof -
  let ?raw = "rx_raw (rxFrames zs ! r)"
  let ?mac = "unat (rf_macStart ?raw)"
  from assms(4) obtain p where p: "ps = [p]" "unat (rf_tpSnapLen ?raw) = length (fst p)"
    "?mac + length (fst p) \<le> length ?raw" "take (length (fst p)) (drop ?mac ?raw) = fst p"
    "rf_tpLen ?raw = snd p"
    by (auto simp: v1_holds_def frame_holds_def v1_raw_def)
  have call: "captured g (drop ?mac ?raw) (rf_tpLen ?raw) (rf_tpSnapLen ?raw) s = g (fst p) (snd p) s"
    using p by (auto simp: captured_def)
  have "zs_frameNum zs = n" "0 < n" "\<not> length ?raw < ?mac" using assms(1,2) p(3) by (auto simp: v1_good_def)
  with v1_bounds [OF assms(1,2)] assms(3) call p(1) show ?thesis
    by (cases "g (fst p) (snd p) s") (simp_all add: listenV1_round_def Let_def v1_after_def)
qed

lemma listenV1_idle:
  assumes "v1_good n zs" "r < n" "\<not> v1_owned zs r"
  shows "\<exists>res w'. listenV1_round os fx r zs s w = (Ok res, w') \<and>
    (let zs1 = zs\<lparr>zs_Polls := zs_Polls zs + 1\<rparr> in res = Goon r zs1 s \<or> (\<exists>e. res = Return e zs1 s))"
  using v1_bounds [OF assms(1,2)] assms(3)
  by (auto simp: listenV1_round_def Let_def split: prod.splits option.splits)

lemma v1_after_frame:
  assumes "v1_good n zs" "r < n" "i < n"
  shows "rxFrames (v1_after r zs) ! i =
    (if i = r then rxSet ((rxFrames zs ! r)\<lparr>rx_mb := 1\<rparr>) else rxFrames zs ! i)"
  using assms by (auto simp: v1_after_def v1_good_def)

lemma v1_after_good: "v1_good n zs \<Longrightarrow> r < n \<Longrightarrow> v1_good n (v1_after r zs)"
  using v1_after_frame [of n zs r] by (auto simp: v1_good_def v1_after_def v1_raw_def rxSet_def nth_list_update)

lemma v1_after_given_back:
  assumes "v1_good n zs" "r < n"
  shows "\<not> v1_owned (v1_after r zs) r"
proof -
  have "8 \<le> length (rx_raw (rxFrames zs ! r))" using assms by (auto simp: v1_good_def v1_raw_def)
  then have "tp_status_at (v1_raw (v1_after r zs) r) = 0"
    by (simp add: v1_raw_def v1_after_frame [OF assms assms(2)] rxSet_def tp_status_at_def fld_put_fld
        TP_STATUS_KERNEL_def)
  then show ?thesis by (simp add: v1_owned_def TP_STATUS_USER_def)
qed

lemma v1_reader_frame:
  assumes "v1_good n zs" "r < n" "v1_owned zs r" "v1_reader os zs r ps r' zs'"
  shows "r' = (r + 1) mod n \<and> zs' = v1_after r zs"
proof -
  from assms(4) obtain log w w' where
    "listenV1_round os rx_record r zs log w = (Ok (Goon r' zs' (log @ ps)), w')"
    by (auto simp: v1_reader_def)
  then show ?thesis using v1_bounds [OF assms(1,2)] assms(1,3)
    by (auto simp: listenV1_round_def Let_def v1_after_def v1_good_def bind_outcome_Ok
        split: if_splits)
qed

interpretation v1: slot_ring n "v1_good n" v1_owned v1_holds "v1_fill n" "v1_reader os" for n os
proof unfold_locales
  fix m k ps m'
  assume "v1_good n m" "k < n" "v1_fill n m k ps m'"
  then show "v1_good n m' \<and> v1_owned m' k \<and> v1_holds m' k ps"
    by (auto simp: v1_fill_def v1_good_def)
next
  fix m k ps m' i qs
  assume "v1_good n m" "k < n" "v1_fill n m k ps m'" "i < n" "i \<noteq> k"
  then show "v1_owned m' i = v1_owned m i \<and> (v1_owned m i \<longrightarrow> v1_holds m i qs \<longrightarrow> v1_holds m' i qs)"
    by (auto simp: v1_fill_def v1_owned_def v1_holds_def split: if_splits)
next
  fix m r qs ps r' m'
  assume *: "v1_good n m" "r < n" "v1_owned m r" "v1_holds m r qs" "v1_reader os m r ps r' m'"
  from *(5) listenV1_owned [OF *(1-4), of os write_down] have "ps = qs"
    by (auto simp: v1_reader_def rx_record_def)
  with v1_reader_frame [OF *(1-3,5)] v1_after_good [OF *(1,2)] v1_after_given_back [OF *(1,2)]
  show "ps = qs \<and> r' = (r + 1) mod n \<and> v1_good n m' \<and> \<not> v1_owned m' r" by simp
next
  fix m r ps r' m' i qs
  assume *: "v1_good n m" "r < n" "v1_owned m r" "v1_reader os m r ps r' m'" "i < n" "i \<noteq> r"
  then have "v1_raw m' i = v1_raw m i"
    using v1_reader_frame [OF *(1-4)] v1_after_frame [OF *(1,2,5)] by (simp add: v1_raw_def)
  then show "v1_owned m' i = v1_owned m i \<and> (v1_holds m i qs \<longrightarrow> v1_holds m' i qs)"
    by (simp add: v1_owned_def v1_holds_def)
next
  fix m r ps r' m'
  assume *: "v1_good n m" "r < n" "\<not> v1_owned m r" "v1_reader os m r ps r' m'"
  then obtain log w w' where "listenV1_round os rx_record r m log w = (Ok (Goon r' m' (log @ ps)), w')"
    by (auto simp: v1_reader_def)
  with listenV1_idle [OF *(1-3), of os rx_record log w]
  show "ps = [] \<and> r' = r \<and> v1_good n m' \<and> (\<forall>i. v1_owned m' i = v1_owned m i) \<and>
    (\<forall>i qs. v1_holds m i qs \<longrightarrow> v1_holds m' i qs)"
    using *(1) by (auto simp: Let_def v1_good_def v1_owned_def v1_holds_def v1_raw_def)
qed

end
