(* ===== verification/ZSocket_Open.thy ===== *)
theory ZSocket_Open
  imports Rx_Lemmas Ring_Props
begin

section \<open>Opening a packet socket (NewZSocket)\<close>

text \<open>
  \<open>NewZSocket\<close> as a whole: the checks, the socket, the version of the ring, the ring request,
  the mapping, the frames; with the bytes of the request structs it passes to the kernel.
  \<open>mmap\<close> answers the mapping of a descriptor and a size. An accepted receive socket starts in
  the state from which the listening loops work, an accepted transmit socket has an empty
  transmit ring, and no path closes the descriptor again.
\<close>

subsection \<open>Requests\<close>

definition getPointer :: "bool \<Rightarrow> tpacketReq \<Rightarrow> byte list" where
  "getPointer isV3 tr =
     (let words = [blockSize tr, blockNum tr, frameSize tr, frameNumber tr]
      in concat (map (le_bytes 4) (if isV3 then words @ [50, 0, 0] else words)))"

definition tpacketReq_size :: "bool \<Rightarrow> nat" where
  "tpacketReq_size isV3 = (if isV3 then 28 else 16)"

definition errnoErr :: "int \<Rightarrow> go_error option" where
  "errnoErr e =
     (if e = 0 then None
      else if e = 11 then Some (ErrText ''try again'')
      else if e = 22 then Some (ErrText ''invalid argument'')
      else if e = 2 then Some (ErrText ''no such file or directory'')
      else Some (Errno e))"

text \<open>The address \<open>syscall.Bind\<close> passes for a \<open>SockaddrLinklayer\<close>.\<close>

definition sockaddr_ll :: "u16 \<Rightarrow> int \<Rightarrow> byte \<Rightarrow> byte list" where
  "sockaddr_ll proto ifindex halen =
     le_bytes 2 (17 :: u16) @ le_bytes 2 proto @ le_bytes 4 (of_int ifindex :: u32) @ [0, 0, 0, halen] @
     replicate 8 0"

subsection \<open>Options and version\<close>

definition ENABLE_RX :: int where "ENABLE_RX = 1"
definition ENABLE_TX :: int where "ENABLE_TX = 2"
definition DISABLE_TX_LOSS :: int where "DISABLE_TX_LOSS = 4"

definition AF_PACKET :: int where "AF_PACKET = 17"
definition SOCK_RAW :: int where "SOCK_RAW = 3"

definition htons :: "int \<Rightarrow> u16" where
  "htons v = le_word (PutUint16 (of_int v))"

text \<open>The version of the ring: version 3 for receiving where the kernel has it.\<close>

definition choose_version ::
  "'w c_os \<Rightarrow> int \<Rightarrow> bool \<Rightarrow> 'w \<Rightarrow> int outcome \<times> 'w" where
  "choose_version os sock rx w =
     (let ((vv, err), w1) = GetsockoptInt os sock SOL_PACKET PACKET_VERSION w
      in case err of
           Some e \<Rightarrow> (Err e, w1)
         | None \<Rightarrow>
             if rx \<and> vv \<noteq> TPacketVersion3 then
               (let (err2, w2) = SetsockoptInt os sock SOL_PACKET PACKET_VERSION TPacketVersion3 w1
                in case err2 of
                     Some e \<Rightarrow>
                       let (err3, w3) = SetsockoptInt os sock SOL_PACKET PACKET_VERSION TPacketVersion1 w2
                       in (Ok TPacketVersion1, w3)
                   | None \<Rightarrow> (Ok TPacketVersion3, w2))
             else (Ok TPacketVersion1, w1))"

text \<open>
  The two \<open>setsockopt\<close> calls that make the rings, and the option for losses. They go through
  \<open>syscall.Syscall6\<close>, which reports the error number of a call that failed and else 0.
\<close>

definition raw_errno :: "c_ret \<Rightarrow> int" where
  "raw_errno r = (if fst r < 0 then snd r else 0)"

definition make_rings ::
  "'w c_os \<Rightarrow> int \<Rightarrow> bool \<Rightarrow> bool \<Rightarrow> bool \<Rightarrow> bool \<Rightarrow> tpacketReq \<Rightarrow> 'w \<Rightarrow> go_error option \<times> 'w" where
  "make_rings os sock isV3 rx tx lossDisabled req w =
     (let reqP = getPointer isV3 req;
          (r1, w1) =
            (if rx then c_setsockopt os sock SOL_PACKET PACKET_RX_RING (take (tpacketReq_size isV3) reqP) w
             else ((0, 0), w))
      in if raw_errno r1 \<noteq> 0 then (errnoErr (raw_errno r1), w1)
         else if \<not> tx then (None, w1)
         else
           let (r2, w2) =
                 c_setsockopt os sock SOL_PACKET PACKET_TX_RING (take (tpacketReq_size False) reqP) w1
           in if raw_errno r2 \<noteq> 0 then (errnoErr (raw_errno r2), w2)
              else if \<not> lossDisabled then
                (None, snd (SetsockoptInt os sock SOL_PACKET PACKET_LOSS 1 w2))
              else (None, w2))"

subsection \<open>Frames\<close>

fun rx_slices :: "byte list \<Rightarrow> nat \<Rightarrow> nat \<Rightarrow> rxFrame list outcome" where
  "rx_slices raw fs 0 = Ok []"
| "rx_slices raw fs (Suc n) =
     (if length raw < fs then Panic SliceOutOfRange
      else bind_outcome (rx_slices (drop fs raw) fs n)
        (\<lambda>frs. Ok (\<lparr>rx_raw = take fs raw, rx_mb = 0\<rparr> # frs)))"

definition no_tx :: "nat \<Rightarrow> bool \<Rightarrow> ZSocket" where
  "no_tx n lossDisabled = \<lparr>txEnabled = False, txLossDisabled = lossDisabled, frameNum = n, txFrameSize = 0,
     txIndex = 0, txWritten = 0, txWrittenIndex = 0, txFrames = [], statPolls = 0, nPacketSent = 0,
     nPacketWrong = 0\<rparr>"

text \<open>The end of \<open>NewZSocket\<close>: the socket over the mapped memory \<open>bs\<close>.\<close>

definition set_frames ::
  "int \<Rightarrow> int \<Rightarrow> int \<Rightarrow> bool \<Rightarrow> bool \<Rightarrow> bool \<Rightarrow> tpacketReq \<Rightarrow> byte list \<Rightarrow> ZSocketFull outcome" where
  "set_frames sock ethIndex ver rx tx lossDisabled req bs =
     (let n = nat (sint (ucast (frameNumber req) :: u32));
          fs = (ucast (frameSize req) :: u16)
      in bind_outcome
           (if rx \<and> ver \<noteq> TPacketVersion3 then rx_slices bs (unat fs) n else Ok []) (\<lambda>rfs.
         bind_outcome
           (if tx then new_tx bs req lossDisabled else Ok (no_tx n lossDisabled)) (\<lambda>txs.
         Ok \<lparr>zs_socket = sock, zs_ifIndex = ethIndex, zs_version = ver, statPackets = 0,
             numBlocks = unat (blockNum req), zs_blockSize = unat (blockSize req), zs_raw = bs,
             nPackets = 0, nDrops = 0, listening = False, zs_frameNum = n, zs_frameSize = fs,
             rxEnabled = rx, rxFrames = rfs, zs_Polls = 0, zs_tx = txs\<rparr>)))"

subsection \<open>NewZSocket\<close>

text \<open>From the accepted version on: the ring request, the rings, the mapping, the frames.\<close>

definition map_rings ::
  "'w c_os \<Rightarrow> (int \<Rightarrow> nat \<Rightarrow> 'w \<Rightarrow> (go_error + byte list) \<times> 'w) \<Rightarrow> u64 \<Rightarrow> int \<Rightarrow> int \<Rightarrow> int \<Rightarrow>
   bool \<Rightarrow> bool \<Rightarrow> bool \<Rightarrow> u64 \<Rightarrow> u64 \<Rightarrow> 'w \<Rightarrow> ZSocketFull outcome option \<times> 'w" where
  "map_rings os mmap pageSize sock ethIndex ver rx tx lossDisabled maxFrameSize maxTotalFrames w =
     (case ring_request pageSize (ver = TPacketVersion3) maxFrameSize maxTotalFrames of
        None \<Rightarrow> (None, w)
      | Some (Err e) \<Rightarrow> (Some (Err e), w)
      | Some (Panic p) \<Rightarrow> (Some (Panic p), w)
      | Some (Ok req) \<Rightarrow>
          (case make_rings os sock (ver = TPacketVersion3) rx tx lossDisabled req w of
             (Some e, w1) \<Rightarrow> (Some (Err e), w1)
           | (None, w1) \<Rightarrow>
               (case mmap sock (unat (blockSize req * blockNum req)) w1 of
                  (Inl e, w2) \<Rightarrow> (Some (Err e), w2)
                | (Inr bs, w2) \<Rightarrow>
                    (case set_frames sock ethIndex ver rx tx lossDisabled req bs of
                       Ok zs \<Rightarrow> let ((r, zs1), w3) = updateSocketStats os zs w2 in (Some (Ok zs1), w3)
                     | Err e \<Rightarrow> (Some (Err e), w2)
                     | Panic p \<Rightarrow> (Some (Panic p), w2)))))"

definition NewZSocket ::
  "'w c_os \<Rightarrow> (int \<Rightarrow> nat \<Rightarrow> 'w \<Rightarrow> (go_error + byte list) \<times> 'w) \<Rightarrow> u64 \<Rightarrow> int \<Rightarrow> int \<Rightarrow> u64 \<Rightarrow> u64 \<Rightarrow> int \<Rightarrow>
   'w \<Rightarrow> ZSocketFull outcome option \<times> 'w" where
  "NewZSocket os mmap pageSize ethIndex options maxFrameSize maxTotalFrames ethType w =
     (case check_ring_args maxFrameSize maxTotalFrames of
        Err e \<Rightarrow> (Some (Err e), w)
      | Panic p \<Rightarrow> (Some (Panic p), w)
      | Ok u \<Rightarrow>
          let tx = (options AND ENABLE_TX = ENABLE_TX);
              rx = (options AND ENABLE_RX = ENABLE_RX \<and> \<not> tx);
              lossDisabled = (options AND DISABLE_TX_LOSS = DISABLE_TX_LOSS);
              eT = (if tx then 0 else htons ethType);
              ((sock, err), w1) = Socket os AF_PACKET SOCK_RAW (uint eT) w
          in (case err of
                Some e \<Rightarrow> (Some (Err e), w1)
              | None \<Rightarrow>
                  let ((r, errno), w2) = c_bind os sock (sockaddr_ll eT ethIndex 6) w1
                  in if r < 0 then (Some (Err (Errno errno)), w2)
                     else
                       (case choose_version os sock rx w2 of
                          (Err e, w3) \<Rightarrow> (Some (Err e), w3)
                        | (Panic p, w3) \<Rightarrow> (Some (Panic p), w3)
                        | (Ok ver, w3) \<Rightarrow>
                            map_rings os mmap pageSize sock ethIndex ver rx tx lossDisabled
                              maxFrameSize maxTotalFrames w3)))"

subsection \<open>What an opened socket guarantees\<close>

text \<open>No path of \<open>NewZSocket\<close> closes a descriptor: it is the same whatever \<open>close\<close> does.\<close>

lemma close_irrelevant:
  "c_bind (os\<lparr>c_close := f\<rparr>) = c_bind os" "c_setsockopt (os\<lparr>c_close := f\<rparr>) = c_setsockopt os"
  "Socket (os\<lparr>c_close := f\<rparr>) = Socket os" "GetsockoptInt (os\<lparr>c_close := f\<rparr>) = GetsockoptInt os"
  "SetsockoptInt (os\<lparr>c_close := f\<rparr>) = SetsockoptInt os"
  "updateSocketStats (os\<lparr>c_close := f\<rparr>) = updateSocketStats os"
  by (simp_all add: fun_eq_iff Socket_def GetsockoptInt_def SetsockoptInt_def updateSocketStats_def Getsockopt_def)

lemma NewZSocket_never_closes:
  "NewZSocket (os\<lparr>c_close := f\<rparr>) mmap pageSize ethIndex options maxFrameSize maxTotalFrames ethType w =
   NewZSocket os mmap pageSize ethIndex options maxFrameSize maxTotalFrames ethType w"
  unfolding NewZSocket_def map_rings_def make_rings_def choose_version_def close_irrelevant ..

text \<open>
  What a successful \<open>mmap\<close> gives: a mapping of the size that was asked for. Nothing is assumed of
  its contents. They belong to the kernel, which writes block headers when the ring is made and
  may have put packets there already, since the socket is bound before.
\<close>

definition maps_whole :: "(int \<Rightarrow> nat \<Rightarrow> 'w \<Rightarrow> (go_error + byte list) \<times> 'w) \<Rightarrow> bool" where
  "maps_whole mmap \<longleftrightarrow>
     (\<forall>sock size w bs w'. mmap sock size w = (Inr bs, w') \<longrightarrow> length bs = size)"

lemma updateSocketStats_frame:
  assumes "updateSocketStats os zs w = ((r, zs1), w1)"
  shows "zs1 = zs\<lparr>nPackets := nPackets zs1, nDrops := nDrops zs1\<rparr>"
  using assms
  by (auto simp: updateSocketStats_def Let_def split: prod.splits option.splits)

lemma v3_good_stats [simp]: "v3_good n (zs\<lparr>nPackets := p, nDrops := d\<rparr>) = v3_good n zs"
  "v3_owned (zs\<lparr>nPackets := p, nDrops := d\<rparr>) = v3_owned zs"
  by (auto simp: v3_good_def v3_owned_def v3_block_def fun_eq_iff)

lemma v1_good_stats [simp]: "v1_good n (zs\<lparr>nPackets := p, nDrops := d\<rparr>) = v1_good n zs"
  "v1_owned (zs\<lparr>nPackets := p, nDrops := d\<rparr>) = v1_owned zs"
  by (auto simp: v1_good_def v1_owned_def v1_raw_def fun_eq_iff)

lemma rx_slices_ok:
  assumes "n * fs \<le> length raw" "rx_slices raw fs n = Ok frs"
  shows "length frs = n \<and> (\<forall>i < n. frs ! i = \<lparr>rx_raw = slot fs raw i, rx_mb = 0\<rparr>)"
  using assms
proof (induction n arbitrary: raw frs)
  case (Suc n)
  from Suc.prems have "n * fs \<le> length (drop fs raw)" by simp
  moreover from Suc.prems obtain rest where
    rest: "rx_slices (drop fs raw) fs n = Ok rest" "frs = \<lparr>rx_raw = take fs raw, rx_mb = 0\<rparr> # rest"
    by (auto simp: bind_outcome_Ok split: if_splits)
  ultimately have "length rest = n" "\<forall>i < n. rest ! i = \<lparr>rx_raw = slot fs (drop fs raw) i, rx_mb = 0\<rparr>"
    using Suc.IH by blast+
  then show ?case using rest(2) by (auto simp: nth_Cons slot_def add.commute split: nat.split)
qed simp

lemma slot_replicate: "slot bs (replicate n x) i = replicate (min bs (n - i * bs)) x"
  by (simp add: slot_def)

lemma tx_slices_slots:
  assumes "n * fs \<le> length raw" "tx_slices raw fs n = Ok frs"
  shows "frs = map (\<lambda>i. mk_frame (slot fs raw i)) [0..<n]"
  using assms
proof (induction n arbitrary: raw frs)
  case (Suc n)
  from Suc.prems(2) obtain rest where
    rest: "tx_slices (drop fs raw) fs n = Ok rest" "frs = mk_frame (take fs raw) # rest"
    by (auto simp: bind_outcome_Ok split: if_splits)
  have "n * fs \<le> length (drop fs raw)" using Suc.prems(1) by simp
  from Suc.IH [OF this rest(1)] have "rest = map (\<lambda>i. mk_frame (slot fs raw (Suc i))) [0..<n]"
    by (simp add: slot_def add.commute)
  also have "\<dots> = map (\<lambda>i. mk_frame (slot fs raw i)) (map Suc [0..<n])" by simp
  finally show ?case using rest(2) by (simp add: upt_conv_Cons map_Suc_upt slot_def del: upt_Suc)
qed simp

text \<open>What the frames over a mapping look like.\<close>

lemma set_frames_v3:
  assumes "set_frames sock ethIndex TPacketVersion3 True False lossDisabled req bs = Ok zs"
    and "length bs = unat (blockSize req * blockNum req)"
    and "unat (blockSize req * blockNum req) = unat (blockSize req) * unat (blockNum req)" "20 \<le> unat (blockSize req)"
  shows "v3_good (unat (blockNum req)) zs \<and> (\<forall>i. v3_block zs i = slot (unat (blockSize req)) bs i) \<and>
    rxEnabled zs \<and> \<not> listening zs \<and> zs_version zs = TPacketVersion3"
  using assms by (auto simp: set_frames_def Let_def v3_good_def v3_block_def)

lemma set_frames_v1:
  assumes "set_frames sock ethIndex TPacketVersion1 True False lossDisabled req bs = Ok zs"
    and "length bs = unat (frameSize req) * unat (frameNumber req)"
    and "unat (frameSize req) \<le> 32768" "18 \<le> unat (frameSize req)" "unat (frameNumber req) < 2147483648"
  shows "v1_good (unat (frameNumber req)) zs \<and>
    (\<forall>i < unat (frameNumber req). v1_raw zs i = slot (unat (frameSize req)) bs i) \<and>
    rxEnabled zs \<and> \<not> listening zs \<and> zs_version zs = TPacketVersion1"
proof -
  let ?fs = "unat (frameSize req)" and ?n = "unat (frameNumber req)"
  have fs: "unat (ucast (frameSize req) :: u16) = ?fs"
    using assms(3) by (simp add: unsigned_ucast_eq take_bit_nat_eq_self)
  have n: "nat (sint (ucast (frameNumber req) :: u32)) = ?n" using assms(5) by (rule nat_int32)
  from assms(1) obtain frs where frs: "rx_slices bs ?fs ?n = Ok frs" and
    zs: "rxFrames zs = frs" "zs_frameNum zs = ?n" "rxEnabled zs" "\<not> listening zs" "zs_version zs = TPacketVersion1"
    by (auto simp: set_frames_def Let_def fs n bind_outcome_Ok TPacketVersion1_def TPacketVersion3_def)
  have len: "?n * ?fs \<le> length bs" by (simp add: assms(2))
  from rx_slices_ok [OF len frs] have f: "length frs = ?n" "\<forall>i < ?n. frs ! i = \<lparr>rx_raw = slot ?fs bs i, rx_mb = 0\<rparr>"
    by auto
  have "length (slot ?fs bs i) = ?fs" if "i < ?n" for i using length_slot [OF len that] .
  with f zs assms(4) show ?thesis by (auto simp: v1_good_def v1_raw_def)
qed

lemma set_frames_tx:
  assumes "set_frames sock ethIndex ver False True lossDisabled req bs = Ok zs"
    and "length bs = unat (frameSize req) * unat (frameNumber req)" "512 \<le> unat (frameSize req)"
    and "unat (frameSize req) \<le> 32768" "unat (frameNumber req) < 2147483648" "0 < unat (frameNumber req)"
  shows "ring_ok (zs_tx zs) \<and> txEnabled (zs_tx zs) \<and> pending_tx (zs_tx zs) = [] \<and>
    txFrames (zs_tx zs) = map (\<lambda>i. mk_frame (slot (unat (frameSize req)) bs i)) [0..<unat (frameNumber req)] \<and>
    \<not> rxEnabled zs"
proof -
  let ?fs = "unat (frameSize req)" and ?n = "unat (frameNumber req)"
  have fs: "unat (ucast (frameSize req) :: u16) = ?fs"
    using assms(4) by (simp add: unsigned_ucast_eq take_bit_nat_eq_self)
  have n: "nat (sint (ucast (frameNumber req) :: u32)) = ?n" using assms(5) by (rule nat_int32)
  have zs: "new_tx bs req lossDisabled = Ok (zs_tx zs)" "\<not> rxEnabled zs"
    using assms(1) by (auto simp: set_frames_def Let_def bind_outcome_Ok)
  have "tx_slices bs ?fs ?n = Ok (txFrames (zs_tx zs))"
    using zs(1) by (auto simp: new_tx_def Let_def bind_outcome_Ok fs n dest: sym)
  moreover have "?n * ?fs \<le> length bs" by (simp add: assms(2))
  ultimately show ?thesis
    using tx_slices_slots new_tx_ok [OF assms(4,5,6,2,3), of lossDisabled] zs by auto
qed

lemma map_rings_Ok:
  assumes "map_rings os mmap pageSize sock ethIndex ver rx tx lossDisabled maxFrameSize maxTotalFrames w =
      (Some (Ok zs), w')"
  shows "\<exists>req bs zs0 p d w1 w2.
    ring_request pageSize (ver = TPacketVersion3) maxFrameSize maxTotalFrames = Some (Ok req) \<and>
    mmap sock (unat (blockSize req * blockNum req)) w1 = (Inr bs, w2) \<and>
    set_frames sock ethIndex ver rx tx lossDisabled req bs = Ok zs0 \<and> zs = zs0\<lparr>nPackets := p, nDrops := d\<rparr>"
proof -
  from assms obtain req w1 where req: "ring_request pageSize (ver = TPacketVersion3) maxFrameSize maxTotalFrames = Some (Ok req)"
    and mk: "make_rings os sock (ver = TPacketVersion3) rx tx lossDisabled req w = (None, w1)"
    by (auto simp: map_rings_def split: option.splits outcome.splits prod.splits)
  from assms req mk obtain bs w2 zs0 where
    m: "mmap sock (unat (blockSize req * blockNum req)) w1 = (Inr bs, w2)"
      "set_frames sock ethIndex ver rx tx lossDisabled req bs = Ok zs0"
    by (auto simp: map_rings_def split: sum.splits prod.splits outcome.splits)
  obtain r zs1 w3 where u: "updateSocketStats os zs0 w2 = ((r, zs1), w3)" by (metis prod.exhaust)
  with assms req mk m have "zs = zs1" by (simp add: map_rings_def)
  with updateSocketStats_frame [OF u] req m show ?thesis by blast
qed

lemma set_frames_sel:
  "set_frames sock ethIndex ver rx tx lossDisabled req bs = Ok zs \<Longrightarrow> zs_socket zs = sock \<and> zs_version zs = ver"
  by (auto simp: set_frames_def Let_def bind_outcome_Ok)

lemma choose_version_cases:
  "choose_version os sock rx w = (Ok ver, w') \<Longrightarrow> ver = TPacketVersion1 \<or> ver = TPacketVersion3 \<and> rx"
  by (auto simp: choose_version_def Let_def split: prod.splits option.splits if_splits)

lemma NewZSocket_Ok:
  assumes "NewZSocket os mmap pageSize ethIndex options maxFrameSize maxTotalFrames ethType w =
      (Some (Ok zs), w')"
  shows "check_ring_args maxFrameSize maxTotalFrames = Ok () \<and>
    (let tx = (options AND ENABLE_TX = ENABLE_TX); rx = (options AND ENABLE_RX = ENABLE_RX \<and> \<not> tx)
     in \<exists>sock ver w1 w2. (ver = TPacketVersion1 \<or> ver = TPacketVersion3 \<and> rx) \<and>
       map_rings os mmap pageSize sock ethIndex ver rx tx (options AND DISABLE_TX_LOSS = DISABLE_TX_LOSS)
         maxFrameSize maxTotalFrames w1 = (Some (Ok zs), w2))"
  using assms choose_version_cases
  by (fastforce simp: NewZSocket_def Let_def split: option.splits outcome.splits prod.splits if_splits)

text \<open>The request that \<open>NewZSocket\<close> makes, with all that the frames need of it.\<close>

lemma ring_request_mem:
  assumes "check_ring_args maxFrameSize maxTotalFrames = Ok ()" "0 < pageSize"
    and "unat maxTotalFrames < 2147483648"
    and "ring_request pageSize isV3 maxFrameSize maxTotalFrames = Some (Ok req)"
  shows "512 \<le> unat (frameSize req)" "unat (frameSize req) \<le> 32768"
    "unat (frameNumber req) = per_block isV3 * (unat maxTotalFrames div per_block isV3)"
    "unat (frameNumber req) < 2147483648"
    "unat (blockNum req) = unat maxTotalFrames div per_block isV3" "20 \<le> unat (blockSize req)"
    "unat (blockSize req * blockNum req) = unat (blockSize req) * unat (blockNum req)"
    "unat (blockSize req * blockNum req) = unat (frameSize req) * unat (frameNumber req)"
proof -
  have "unat maxTotalFrames < 4294967296" using assms(3) by linarith
  from ring_request_ok [OF assms(1,2) this, of isV3] assms(4)
  have r: "512 \<le> unat (frameSize req)" "unat (frameSize req) \<le> 32768"
    "unat (frameNumber req) = per_block isV3 * (unat maxTotalFrames div per_block isV3)"
    "unat (frameSize req) * unat (frameNumber req) = unat (blockSize req) * unat (blockNum req)"
    "unat (blockSize req) = unat (frameSize req) * per_block isV3"
    "unat (blockNum req) = unat maxTotalFrames div per_block isV3" by auto
  have "unat (frameNumber req) \<le> unat maxTotalFrames" unfolding r(3) by (rule times_div_less_eq_dividend)
  then have n: "unat (frameNumber req) < 2147483648" using assms(3) by linarith
  then have "unat (frameSize req) * unat (frameNumber req) \<le> 32768 * 2147483648"
    using r(2) by (intro mult_le_mono) simp_all
  then have m: "unat (blockSize req * blockNum req) = unat (blockSize req) * unat (blockNum req)"
    unfolding r(4) by (intro unat_mult_small) simp
  have "1 \<le> per_block isV3" by (simp add: per_block_def)
  with r(1) have "512 * 1 \<le> unat (frameSize req) * per_block isV3" by (intro mult_le_mono)
  then have b: "20 \<le> unat (blockSize req)" unfolding r(5) by simp
  show "512 \<le> unat (frameSize req)" "unat (frameSize req) \<le> 32768"
    "unat (frameNumber req) = per_block isV3 * (unat maxTotalFrames div per_block isV3)"
    "unat (frameNumber req) < 2147483648"
    "unat (blockNum req) = unat maxTotalFrames div per_block isV3" "20 \<le> unat (blockSize req)"
    "unat (blockSize req * blockNum req) = unat (blockSize req) * unat (blockNum req)"
    "unat (blockSize req * blockNum req) = unat (frameSize req) * unat (frameNumber req)"
    by (fact r n b m | simp only: m r(4))+
qed

end
