(* ===== verification/Rx_Props.thy ===== *)
theory Rx_Props
  imports ZSocket_Open
begin

section \<open>What the receive ring guarantees\<close>

text \<open>
  A block is handed over packet by packet and given back; both listening loops hand over the
  packets of the kernel in order, each exactly once, for every interleaving with the kernel,
  and do not panic; a socket that \<open>NewZSocket\<close> returns starts in a state these hold from.
\<close>

subsection \<open>A small ring\<close>

definition demo_pkt :: "nat \<Rightarrow> u32 \<Rightarrow> byte list \<Rightarrow> byte list \<Rightarrow> byte list" where
  "demo_pkt offs next data bd =
     (let n = (of_nat (length data) :: u32);
          h = put_fld 4 offs next (put_fld 4 (offs + 12) n (put_fld 4 (offs + 16) n
                (put_fld 2 (offs + 24) (28 :: u16) bd)))
      in put_slice h (offs + 28) (offs + 28 + length data) data)"

definition demo_block :: "byte list" where
  "demo_block = put_fld 4 8 TP_STATUS_USER (put_fld 4 12 (2 :: u32) (put_fld 4 16 (24 :: u32)
     (demo_pkt 24 32 [1, 2, 3] (demo_pkt 56 0 [4, 5] (replicate 96 0)))))"

definition demo_packets :: "pkt list" where
  "demo_packets = [([1, 2, 3], 3), ([4, 5], 2)]"

definition demo_rx :: "byte list \<Rightarrow> ZSocketFull" where
  "demo_rx raw = \<lparr>zs_socket = 3, zs_ifIndex = 2, zs_version = TPacketVersion3, statPackets = 0,
     numBlocks = 2, zs_blockSize = 96, zs_raw = raw, nPackets = 0, nDrops = 0, listening = True,
     zs_frameNum = 2, zs_frameSize = 0, rxEnabled = True, rxFrames = [], zs_Polls = 0,
     zs_tx = no_tx 2 False\<rparr>"

lemma demo_block_facts:
  "length demo_block = 96" "block_holds 96 demo_block demo_packets" "block_status demo_block = 1"
  by code_simp+

subsection \<open>Properties\<close>

text \<open>
  C13. A block is handed over whole: on a block that holds the packets \<open>ps\<close>, \<open>walkBlock\<close> runs
  the callback on exactly these packets in their order, whatever the callback does with them,
  counts them, and then gives the block back to the kernel without changing another byte of it.
\<close>

theorem walkBlock_hands_over:
  assumes "20 \<le> length bd" "block_holds bs bd ps" "feed g ps s = Ok s'"
  shows "\<exists>bd'. walkBlock (captured g) bs bd (k, s) = Ok (bd', k + of_nat (length ps), s') \<and>
    block_status bd' = TP_STATUS_KERNEL \<and> length bd' = length bd \<and>
    take 8 bd' = take 8 bd \<and> drop 12 bd' = drop 12 bd"
  using assms walkBlock_chain [OF assms(1,2), of g k s] block_status_given_back [of bd]
  by (auto simp: TP_STATUS_KERNEL_def put_fld_def)

theorem walkBlock_hands_over_witness:
  "\<exists>bd'. walkBlock rx_record 96 demo_block (7, []) = Ok (bd', 9, demo_packets) \<and>
    block_status bd' = TP_STATUS_KERNEL"
proof -
  have "feed write_down demo_packets [] = Ok demo_packets" by simp
  from walkBlock_hands_over [OF _ demo_block_facts(2) this, of 7] show ?thesis
    by (auto simp: rx_record_def demo_block_facts demo_packets_def)
qed

text \<open>
  C12. The blocks of version 3 are a queue: whatever the interleaving of the kernel filling
  blocks and of rounds of \<open>listenV3\<close>, from an empty ring on, the packets handed to the callback
  are a prefix of the packets the kernel put in, in order and each once; when the block at the
  reader's index is not ready, they are all of them; and a round never panics.
\<close>

theorem listenV3_is_queue:
  assumes "reachable (slot_start n (v3_good n) v3_owned) (slot_step n v3_owned (v3_fill n) (v3_reader os)) x"
  shows "(\<exists>rest. put_in x = taken x @ rest) \<and>
    (\<not> v3_owned (memory x) (rd_index x) \<longrightarrow> taken x = put_in x) \<and>
    \<not> is_panic (fst (listenV3_round os rx_record (rd_index x) (memory x) log w))"
proof (intro conjI impI)
  show "\<exists>rest. put_in x = taken x @ rest" using assms by (rule v3.taken_prefix)
  show "taken x = put_in x" if "\<not> v3_owned (memory x) (rd_index x)"
    using assms that by (rule v3.idle_taken_all)
  have inv: "slot_inv n (v3_good n) v3_owned v3_holds x" using assms by (rule v3.ring_system.reachable_inv)
  then have g: "v3_good n (memory x)" "rd_index x < n" by (auto simp: slot_inv_def)
  show "\<not> is_panic (fst (listenV3_round os rx_record (rd_index x) (memory x) log w))"
  proof (cases "v3_owned (memory x) (rd_index x)")
    case True
    with inv obtain ps where "v3_holds (memory x) (rd_index x) ps" by (rule slot_inv_holds)
    from listenV3_owned [OF g True this, of os write_down log w] show ?thesis by (simp add: rx_record_def)
  next
    case False
    from listenV3_idle [OF g this, of os rx_record log w] show ?thesis by auto
  qed
qed

text \<open>The run of the small ring: the kernel fills the first block, a round hands it over.\<close>

lemma demo_fill: "v3_fill 2 (demo_rx (replicate 192 0)) 0 demo_packets (demo_rx (demo_block @ replicate 96 0))"
proof -
  have "v3_block (demo_rx (demo_block @ replicate 96 0)) 0 = demo_block"
    "\<not> v3_owned (demo_rx (demo_block @ replicate 96 0)) 1" "\<not> v3_owned (demo_rx (replicate 192 0)) 1"
    by code_simp+
  moreover have "demo_rx (demo_block @ replicate 96 0) =
    (demo_rx (replicate 192 0))\<lparr>zs_raw := demo_block @ replicate 96 0\<rparr>" by (simp add: demo_rx_def)
  moreover have "zs_blockSize (demo_rx (demo_block @ replicate 96 0)) = 96" by (simp add: demo_rx_def)
  ultimately show ?thesis using demo_block_facts
    by (auto simp: v3_fill_def v3_owned_def v3_holds_def TP_STATUS_USER_def less_2_cases_iff demo_rx_def)
qed

lemma demo_round:
  "\<exists>zs. v3_reader (null_os :: unit c_os) (demo_rx (demo_block @ replicate 96 0)) 0 demo_packets 1 zs"
proof -
  let ?zs = "demo_rx (demo_block @ replicate 96 0)"
  have "v3_good 2 ?zs" by (simp add: v3_good_def demo_rx_def demo_block_facts)
  moreover have "v3_owned ?zs 0" "v3_holds ?zs 0 demo_packets" using demo_fill by (simp_all add: v3_fill_def)
  ultimately have "listenV3_round null_os rx_record 0 ?zs [] () =
      (Ok (Goon 1 (v3_after 0 (length demo_packets) ?zs) demo_packets), ())"
    using listenV3_owned [of 2 ?zs 0 demo_packets null_os write_down "[]" "()"] by (simp add: rx_record_def)
  then show ?thesis unfolding v3_reader_def by (metis append_Nil)
qed

theorem listenV3_is_queue_witness:
  "\<exists>x. reachable (slot_start 2 (v3_good 2) v3_owned) (slot_step 2 v3_owned (v3_fill 2) (v3_reader (null_os :: unit c_os))) x \<and>
    taken x = demo_packets \<and> (\<exists>rest. put_in x = taken x @ rest)"
proof -
  let ?step = "slot_step 2 v3_owned (v3_fill 2) (v3_reader (null_os :: unit c_os))"
  let ?x0 = "\<lparr>memory = demo_rx (replicate 192 0), rd_index = 0, kn_index = 0, put_in = [], taken = []\<rparr>"
  let ?x1 = "?x0\<lparr>memory := demo_rx (demo_block @ replicate 96 0), kn_index := 1, put_in := demo_packets\<rparr>"
  obtain zs where zs: "v3_reader (null_os :: unit c_os) (demo_rx (demo_block @ replicate 96 0)) 0 demo_packets 1 zs"
    using demo_round by blast
  let ?x2 = "?x1\<lparr>memory := zs, rd_index := 1, taken := demo_packets\<rparr>"
  have own: "\<not> v3_owned (demo_rx (replicate 192 0)) i" if "i < 2" for i
    using that by (auto simp: v3_owned_def v3_block_def demo_rx_def block_status_def slot_replicate)
  then have "slot_start 2 (v3_good 2) v3_owned ?x0"
    by (simp add: slot_start_def v3_good_def demo_rx_def)
  then have "reachable (slot_start 2 (v3_good 2) v3_owned) ?step ?x0" by (rule reach_init)
  moreover have "?step ?x0 ?x1"
    using kernel_fills [of v3_owned ?x0 "v3_fill 2" demo_packets "demo_rx (demo_block @ replicate 96 0)" 2]
      demo_fill own by simp
  moreover have "?step ?x1 ?x2" using reader_round [of "v3_reader (null_os :: unit c_os)" ?x1 demo_packets 1 zs] zs by simp
  ultimately have r: "reachable (slot_start 2 (v3_good 2) v3_owned) ?step ?x2" by (meson reach_step)
  with listenV3_is_queue [OF r] show ?thesis by (intro exI [of _ ?x2]) simp
qed

text \<open>
  The frames of version 1 are a queue in the same sense, for rounds of \<open>listenV1\<close>.
\<close>

theorem listenV1_is_queue:
  assumes "reachable (slot_start n (v1_good n) v1_owned) (slot_step n v1_owned (v1_fill n) (v1_reader os)) x"
  shows "(\<exists>rest. put_in x = taken x @ rest) \<and>
    (\<not> v1_owned (memory x) (rd_index x) \<longrightarrow> taken x = put_in x) \<and>
    \<not> is_panic (fst (listenV1_round os rx_record (rd_index x) (memory x) log w))"
proof (intro conjI impI)
  show "\<exists>rest. put_in x = taken x @ rest" using assms by (rule v1.taken_prefix)
  show "taken x = put_in x" if "\<not> v1_owned (memory x) (rd_index x)"
    using assms that by (rule v1.idle_taken_all)
  have inv: "slot_inv n (v1_good n) v1_owned v1_holds x" using assms by (rule v1.ring_system.reachable_inv)
  then have g: "v1_good n (memory x)" "rd_index x < n" by (auto simp: slot_inv_def)
  show "\<not> is_panic (fst (listenV1_round os rx_record (rd_index x) (memory x) log w))"
  proof (cases "v1_owned (memory x) (rd_index x)")
    case True
    with inv obtain ps where "v1_holds (memory x) (rd_index x) ps" by (rule slot_inv_holds)
    from listenV1_owned [OF g True this, of os write_down log w] show ?thesis by (simp add: rx_record_def)
  next
    case False
    from listenV1_idle [OF g this, of os rx_record log w] show ?thesis by auto
  qed
qed

text \<open>
  C14. An opened socket is ready: when \<open>NewZSocket\<close> succeeds with fewer than 2^31 frames, it has
  mapped the size it requested of the kernel, and the socket works on that mapping, whatever the
  kernel has in it by then. Opened for receiving only, it listens with the loop for the version
  the kernel accepted; its blocks or frames are the consecutive slots of the mapping; and when
  the kernel has so far passed on the first \<open>k\<close> slots (none, as a rule), the ring is in a state
  of the queue invariant with the contents of these slots waiting for the reader. Opened for
  transmitting, it has a well-formed transmit ring over the slots with nothing pending, and it
  does not receive, whatever else its options say.
\<close>

theorem NewZSocket_ready:
  assumes "NewZSocket os mmap pageSize ethIndex options maxFrameSize maxTotalFrames ethType w =
      (Some (Ok zs), w')"
    and "maps_whole mmap" "0 < pageSize" "unat maxTotalFrames < 2147483648" "8 \<le> unat maxTotalFrames"
  shows "\<exists>req bs w1 w2.
    ring_request pageSize (zs_version zs = TPacketVersion3) maxFrameSize maxTotalFrames = Some (Ok req) \<and>
    mmap (zs_socket zs) (unat (blockSize req * blockNum req)) w1 = (Inr bs, w2) \<and>
    (if options AND ENABLE_TX = ENABLE_TX
     then ring_ok (zs_tx zs) \<and> txEnabled (zs_tx zs) \<and> pending_tx (zs_tx zs) = [] \<and> \<not> rxEnabled zs \<and>
       txFrames (zs_tx zs) = map (\<lambda>i. mk_frame (slot (unat (frameSize req)) bs i)) [0..<unat (frameNumber req)]
     else options AND ENABLE_RX = ENABLE_RX \<longrightarrow>
       (if zs_version zs = TPacketVersion3
        then fst (Listen zs) = Ok LoopV3 \<and> (\<forall>i. v3_block zs i = slot (unat (blockSize req)) bs i) \<and>
          (\<forall>k pss. first_passed (unat (blockNum req)) v3_owned v3_holds (snd (Listen zs)) k pss \<longrightarrow>
             slot_inv (unat (blockNum req)) (v3_good (unat (blockNum req))) v3_owned v3_holds
               (opened (unat (blockNum req)) (snd (Listen zs)) k pss))
        else fst (Listen zs) = Ok LoopV1 \<and>
          (\<forall>i < unat (frameNumber req). v1_raw zs i = slot (unat (frameSize req)) bs i) \<and>
          (\<forall>k pss. first_passed (unat (frameNumber req)) v1_owned v1_holds (snd (Listen zs)) k pss \<longrightarrow>
             slot_inv (unat (frameNumber req)) (v1_good (unat (frameNumber req))) v1_owned v1_holds
               (opened (unat (frameNumber req)) (snd (Listen zs)) k pss))))"
proof -
  define tx where "tx = (options AND ENABLE_TX = ENABLE_TX)"
  define rx where "rx = (options AND ENABLE_RX = ENABLE_RX \<and> \<not> tx)"
  let ?loss = "options AND DISABLE_TX_LOSS = DISABLE_TX_LOSS"
  from NewZSocket_Ok [OF assms(1)] obtain sock ver w1 w2 where
    args: "check_ring_args maxFrameSize maxTotalFrames = Ok ()"
    and ver: "ver = TPacketVersion1 \<or> ver = TPacketVersion3 \<and> rx"
    and mr: "map_rings os mmap pageSize sock ethIndex ver rx tx ?loss maxFrameSize maxTotalFrames w1 =
        (Some (Ok zs), w2)"
    by (auto simp: Let_def tx_def rx_def)
  from map_rings_Ok [OF mr] obtain req bs zs0 p d w3 w4 where
    req: "ring_request pageSize (ver = TPacketVersion3) maxFrameSize maxTotalFrames = Some (Ok req)"
    and mp: "mmap sock (unat (blockSize req * blockNum req)) w3 = (Inr bs, w4)"
    and sf: "set_frames sock ethIndex ver rx tx ?loss req bs = Ok zs0"
    and zs: "zs = zs0\<lparr>nPackets := p, nDrops := d\<rparr>" by blast
  note mem = ring_request_mem [OF args assms(3,4) req]
  have len: "length bs = unat (blockSize req * blockNum req)" using assms(2) mp unfolding maps_whole_def by blast
  then have len': "length bs = unat (frameSize req) * unat (frameNumber req)" using mem(8) by simp
  have sel: "zs_socket zs = sock" "zs_version zs = ver" using set_frames_sel [OF sf] by (simp_all add: zs)
  have inv3: "v3_good n zs0 \<Longrightarrow> rxEnabled zs0 \<Longrightarrow> \<not> listening zs0 \<Longrightarrow>
      first_passed n v3_owned v3_holds (snd (Listen zs)) k pss \<Longrightarrow>
      slot_inv n (v3_good n) v3_owned v3_holds (opened n (snd (Listen zs)) k pss)" for n k pss
    by (rule opened_inv) (simp_all add: zs Listen_def v3_good_def)
  have inv1: "v1_good n zs0 \<Longrightarrow> rxEnabled zs0 \<Longrightarrow> \<not> listening zs0 \<Longrightarrow>
      first_passed n v1_owned v1_holds (snd (Listen zs)) k pss \<Longrightarrow>
      slot_inv n (v1_good n) v1_owned v1_holds (opened n (snd (Listen zs)) k pss)" for n k pss
    by (rule opened_inv) (simp_all add: zs Listen_def v1_good_def v1_raw_def)
  have "if tx
     then ring_ok (zs_tx zs) \<and> txEnabled (zs_tx zs) \<and> pending_tx (zs_tx zs) = [] \<and> \<not> rxEnabled zs \<and>
       txFrames (zs_tx zs) = map (\<lambda>i. mk_frame (slot (unat (frameSize req)) bs i)) [0..<unat (frameNumber req)]
     else rx \<longrightarrow>
       (if ver = TPacketVersion3
        then fst (Listen zs) = Ok LoopV3 \<and> (\<forall>i. v3_block zs i = slot (unat (blockSize req)) bs i) \<and>
          v3_good (unat (blockNum req)) zs0 \<and> rxEnabled zs0 \<and> \<not> listening zs0
        else fst (Listen zs) = Ok LoopV1 \<and>
          (\<forall>i < unat (frameNumber req). v1_raw zs i = slot (unat (frameSize req)) bs i) \<and>
          v1_good (unat (frameNumber req)) zs0 \<and> rxEnabled zs0 \<and> \<not> listening zs0)"
  proof (cases tx)
    case True
    then have v: "ver = TPacketVersion1" "\<not> rx" using ver by (auto simp: rx_def)
    have "0 < unat (frameNumber req)"
      using mem(3) assms(5) v(1) by (simp add: per_block_def TPacketVersion1_def TPacketVersion3_def div_greater_zero_iff)
    with set_frames_tx [OF _ len' mem(1,2,4)] sf True v show ?thesis by (simp add: zs)
  next
    case F: False
    show ?thesis
    proof (cases "rx \<and> ver = TPacketVersion3")
      case True
      with set_frames_v3 [OF _ len mem(7,6)] sf F show ?thesis by (auto simp: zs Listen_def v3_block_def)
    next
      case False
      have "TPacketVersion1 \<noteq> TPacketVersion3" by (simp add: TPacketVersion1_def TPacketVersion3_def)
      with False set_frames_v1 [OF _ len' mem(2) _ mem(4)] sf F ver mem(1) show ?thesis
        by (auto simp: zs Listen_def v1_raw_def)
    qed
  qed
  note ready = this
  show ?thesis
    using req mp ready inv3 inv1 unfolding sel tx_def [symmetric]
    by (intro exI [of _ req] exI [of _ bs] exI [of _ w3] exI [of _ w4] conjI) (auto simp: rx_def)
qed

text \<open>
  The mapping of the witness is not empty: the kernel has passed on the first block.
\<close>

definition demo_map :: "int \<Rightarrow> nat \<Rightarrow> unit \<Rightarrow> (go_error + byte list) \<times> unit" where
  "demo_map sock n w = (Inr (take n demo_block @ replicate (n - 96) 0), w)"

theorem NewZSocket_ready_witness:
  "\<exists>zs. NewZSocket null_os demo_map 4096 2 ENABLE_RX 4096 1024 0x800 () = (Some (Ok zs), ()) \<and>
    fst (Listen zs) = Ok LoopV3 \<and> v3_owned zs 0"
proof -
  let ?new = "NewZSocket null_os demo_map 4096 2 ENABLE_RX 4096 1024 0x800 ()"
  have req: "ring_request 4096 True 4096 1024 =
    Some (Ok \<lparr>blockSize = 4194304, blockNum = 1, frameSize = 4096, frameNumber = 1024\<rparr>)" by code_simp
  have args: "check_ring_args 4096 1024 = Ok ()" by code_simp
  have opts: "ENABLE_RX AND ENABLE_TX \<noteq> ENABLE_TX" "ENABLE_RX AND ENABLE_RX = ENABLE_RX"
    by (simp_all add: ENABLE_RX_def ENABLE_TX_def)
  have "\<exists>zs. ?new = (Some (Ok zs), ()) \<and> zs_version zs = TPacketVersion3"
    using req args opts
    by (simp add: NewZSocket_def Socket_def null_os_def choose_version_def GetsockoptInt_def SetsockoptInt_def
        go_copy_def errno_if_def Let_def TPacketVersion3_def map_rings_def make_rings_def raw_errno_def
        set_frames_def updateSocketStats_def Getsockopt_def demo_map_def)
  then obtain zs where zs: "?new = (Some (Ok zs), ())" "zs_version zs = TPacketVersion3" by blast
  have whole: "maps_whole demo_map" by (auto simp: maps_whole_def demo_map_def demo_block_facts(1))
  have "unat (1024 :: u64) < 2147483648" "8 \<le> unat (1024 :: u64)" "(0 :: u64) < 4096" by simp_all
  from NewZSocket_ready [OF zs(1) whole this(3,1,2)] zs(2) opts req obtain bs w1 w2 where
    r: "demo_map (zs_socket zs) (unat (4194304 * 1 :: u64)) w1 = (Inr bs, w2)" "fst (Listen zs) = Ok LoopV3"
      "\<forall>i. v3_block zs i = slot (unat (4194304 :: u64)) bs i" by auto
  have "fld 4 8 (v3_block zs 0) = (fld 4 8 demo_block :: u32)"
    using r(1,3) by (auto simp: demo_map_def slot_def fld_def demo_block_facts(1))
  then have "v3_owned zs 0"
    using demo_block_facts(3) by (simp add: v3_owned_def block_status_def TP_STATUS_USER_def)
  with zs r(2) show ?thesis by blast
qed

end
