(* ===== verification/Ring_Path.thy ===== *)
theory Ring_Path
  imports Mcast_Props Rx_Props
begin

section \<open>From one ring to another\<close>

text \<open>
  The way of a datagram through both rings: the frame a sending connection writes
  (\<open>zsockIf.copyFx\<close>), as a packet of a block of the receive ring of another host, through
  \<open>listenV3\<close> and the callback of \<open>zsockIf.Listen\<close> to the function the client registers. The
  accessors of the third-party package nettypes are a parameter; \<open>nt_standard\<close> says what they
  read from an untagged Ethernet frame with an IPv4 header without options and a UDP header.
\<close>

definition nt_standard :: "nettypes \<Rightarrow> bool" where
  "nt_standard nt \<longleftrightarrow> nt_IPv4 nt = 0x800 \<and> nt_UDP nt = 0x11 \<and>
     (\<forall>f. take 2 (drop 12 f) = [8, 0] \<longrightarrow> MACEthertype nt f = 0x800 \<and> MACPayload nt f = (drop 14 f, 14)) \<and>
     (\<forall>p. 20 \<le> length p \<longrightarrow> p ! 0 = 0x45 \<longrightarrow>
        ip_Protocol nt p = ucast (p ! 9) \<and> ip_Length nt p = Uint16 (take 2 (drop 2 p)) \<and>
        ip_Payload nt p = (drop 20 p, 20) \<and> ip_SourceIP nt p = take 4 (drop 12 p)) \<and>
     (\<forall>u. 8 \<le> length u \<longrightarrow>
        udp_SourcePort nt u = Uint16 (take 2 u) \<and> udp_DestinationPort nt u = Uint16 (take 2 (drop 2 u)) \<and>
        udp_Length nt u = Uint16 (take 2 (drop 4 u)) \<and> udp_Payload nt u = (drop 8 u, 8))"

text \<open>
  The callback of \<open>Listen\<close> with a function that writes down what it is called with, and the
  same on captured bytes.
\<close>

definition zsockIf_Listen :: "nettypes \<Rightarrow> zsockIf \<Rightarrow> (byte list \<times> UDPAddr) list callback" where
  "zsockIf_Listen nt c fb frameLen capturedLen log =
     bind_outcome (zsockIf_heard nt c fb capturedLen) (\<lambda>h.
       case h of None \<Rightarrow> Ok log | Some x \<Rightarrow> Ok (log @ [x]))"

definition on_captured ::
  "nettypes \<Rightarrow> zsockIf \<Rightarrow> byte list \<Rightarrow> u16 \<Rightarrow> (byte list \<times> UDPAddr) list \<Rightarrow> (byte list \<times> UDPAddr) list outcome" where
  "on_captured nt c d len log = zsockIf_Listen nt c d len (of_nat (length d)) log"

lemma heard_captured:
  "unat n \<le> length fb \<Longrightarrow> zsockIf_heard nt c fb n = zsockIf_heard nt c (take (unat n) fb) n"
  by (simp add: zsockIf_heard_def)

lemma zsockIf_Listen_captured: "zsockIf_Listen nt c = captured (on_captured nt c)"
proof (intro ext)
  fix fb len snap log
  show "zsockIf_Listen nt c fb len snap log = captured (on_captured nt c) fb len snap log"
  proof (cases "length fb < unat snap")
    case True
    then show ?thesis by (simp add: zsockIf_Listen_def zsockIf_heard_def captured_def)
  next
    case False
    then show ?thesis using heard_captured [of snap fb nt c]
      by (simp add: zsockIf_Listen_def on_captured_def captured_def)
  qed
qed

text \<open>The address a receiver sees: that of the sender, and one more than the port.\<close>

definition seen_addr :: "zsockIf \<Rightarrow> UDPAddr" where
  "seen_addr c = \<lparr>IP = net_IPv4 (z_srcIP c ! 0) (z_srcIP c ! 1) (z_srcIP c ! 2) (z_srcIP c ! 3),
     Port = uint (of_int (z_port c + 1) :: u16)\<rparr>"

lemma Uint16_htons [simp]: "Uint16 (htons_bytes v) = of_int v"
  by (simp add: htons_bytes_def)

lemma heard_frame:
  assumes nt: "nt_standard nt" and c: "sender_ok c" and z: "z_port z = z_port c" and l: "length src < 65494"
    and f: "f = z_dst c @ z_src c @ [8, 0] @ ip_bytes (int (length src)) ck (z_srcIP c) (z_dstIP c) @
      udp_bytes (z_port c) (int (length src)) @ src"
  shows "zsockIf_heard nt z f (of_nat (length f)) = Ok (Some (src, seen_addr c))"
proof -
  let ?l = "int (length src)"
  let ?udp = "udp_bytes (z_port c) ?l @ src"
  let ?ip = "ip_bytes ?l ck (z_srcIP c) (z_dstIP c) @ ?udp"
  have len: "length (z_dst c) = 6" "length (z_src c) = 6" "length (z_srcIP c) = 4" "length (z_dstIP c) = 4"
    "0 \<le> z_port c" "z_port c < 65536" using c by (simp_all add: sender_ok_def)
  have lf: "length f = length src + 42" using f len by simp
  have cap: "unat (of_nat (length f) :: u16) = length f" using lf l by (intro unat_of_nat_u16) simp
  have mac: "take 2 (drop 12 f) = [8, 0]" "drop 14 f = ?ip" using f len by simp_all
  have ip: "20 \<le> length ?ip" "?ip ! 0 = 0x45" "?ip ! 9 = 0x11" "take 2 (drop 2 ?ip) = htons_bytes (?l + 28)"
    "drop 20 ?ip = ?udp" "take 4 (drop 12 ?ip) = z_srcIP c"
    using len by (simp_all add: ip_bytes_def nth_append nth_Cons')
  have udp: "8 \<le> length ?udp" "take 2 ?udp = htons_bytes (z_port c + 1)"
    "take 2 (drop 2 ?udp) = htons_bytes (z_port c)" "take 2 (drop 4 ?udp) = htons_bytes (?l + 8)" "drop 8 ?udp = src"
    by (simp_all add: udp_bytes_def)
  have port: "uint (of_int (z_port c) :: u16) = z_port c" using len by (simp add: uint_word_of_int)
  have n1: "of_nat (length f) - 14 = (of_int (?l + 28) :: u16)" using lf by simp
  have n2: "of_int (?l + 28) - 20 = (of_int (?l + 8) :: u16)" by simp
  have acc: "nt_IPv4 nt = 0x800" "nt_UDP nt = 0x11" "MACEthertype nt f = 0x800" "MACPayload nt f = (?ip, 14)"
    "ip_Protocol nt ?ip = 0x11" "ip_Length nt ?ip = of_int (?l + 28)" "ip_Payload nt ?ip = (?udp, 20)"
    "ip_SourceIP nt ?ip = z_srcIP c" "udp_SourcePort nt ?udp = of_int (z_port c + 1)"
    "udp_DestinationPort nt ?udp = of_int (z_port c)" "udp_Length nt ?udp = of_int (?l + 8)"
    "udp_Payload nt ?udp = (src, 8)"
    using nt mac ip udp unfolding nt_standard_def by (simp_all only: Uint16_htons) simp_all
  show ?thesis
    using cap len(3) port z
    unfolding zsockIf_heard_def Let_def
    by (simp add: acc n1 n2 seen_addr_def del: of_int_add)
qed

subsection \<open>Datagrams sent and heard\<close>

text \<open>The packet that leaves the host for a datagram: the part of the frame of the length reported.\<close>

definition sent_as :: "(byte list \<Rightarrow> u16) \<Rightarrow> zsockIf \<Rightarrow> byte list \<Rightarrow> pkt \<Rightarrow> bool" where
  "sent_as cks c b p \<longleftrightarrow> (\<exists>d frame. 42 + length b \<le> length d \<and>
     zsockIf_copyFx cks c d b (int (length b)) = Ok (frame, snd p) \<and> fst p = take (unat (snd p)) frame)"

lemma sent_frame:
  assumes "sender_ok c" "b \<noteq> []" "length b < 65494" "sent_as cks c b p"
  shows "\<exists>ck. fst p = z_dst c @ z_src c @ [8, 0] @ ip_bytes (int (length b)) ck (z_srcIP c) (z_dstIP c) @
    udp_bytes (z_port c) (int (length b)) @ b"
proof -
  from assms(4) obtain d frame where d: "42 + length b \<le> length d"
    "zsockIf_copyFx cks c d b (int (length b)) = Ok (frame, snd p)" "fst p = take (unat (snd p)) frame"
    by (auto simp: sent_as_def)
  from zsockIf_copyFx_Ok [OF assms(1) d(1) assms(2) refl, of cks] d(2) obtain ck where
    f: "frame = (z_dst c @ z_src c @ [8, 0] @ ip_bytes (int (length b)) ck (z_srcIP c) (z_dstIP c) @
      udp_bytes (z_port c) (int (length b)) @ b) @ drop (42 + length b) d" (is "frame = ?hd @ _")
      "snd p = of_int (int (length b) + 42)"
    by auto
  have "unat (of_int (int (length b) + 42) :: u16) = length b + 42"
    using unat_of_nat_u16 [of "length b + 42"] assms(3) by (simp add: add.commute)
  moreover have "length ?hd = length b + 42" using assms(1) by (simp add: sender_ok_def)
  ultimately have "fst p = ?hd" unfolding d(3) f by (metis append_eq_conv_conj)
  then show ?thesis ..
qed

lemma feed_heard:
  assumes "nt_standard nt" "sender_ok c" "z_port z = z_port c"
    and "list_all2 (sent_as cks c) bs ps" "\<forall>b \<in> set bs. b \<noteq> [] \<and> length b < 65494"
  shows "feed (on_captured nt z) ps log = Ok (log @ map (\<lambda>b. (b, seen_addr c)) bs)"
  using assms(4,5)
proof (induction arbitrary: log rule: list_all2_induct)
  case (Cons b bs p ps)
  then obtain ck where "fst p = z_dst c @ z_src c @ [8, 0] @
      ip_bytes (int (length b)) ck (z_srcIP c) (z_dstIP c) @ udp_bytes (z_port c) (int (length b)) @ b"
    using sent_frame [OF assms(2), of b cks p] by auto
  from heard_frame [OF assms(1-3) _ this] Cons show ?case
    by (simp add: on_captured_def zsockIf_Listen_def)
qed simp

text \<open>
  C11. What a ring connection sends, a ring connection on the same port hears: when a block of
  the receive ring holds the packets of some datagrams, as the sender wrote their frames, the
  round of \<open>listenV3\<close> on that block calls the registered function once for each datagram, in
  order, with exactly its payload and the address of the sender, and gives the block back.
\<close>

theorem ring_to_ring:
  assumes "nt_standard nt" "sender_ok c" "z_port z = z_port c"
    and "list_all2 (sent_as cks c) bs ps" "\<forall>b \<in> set bs. b \<noteq> [] \<and> length b < 65494"
    and "v3_good n zs" "r < n" "v3_owned zs r" "v3_holds zs r ps"
  shows "\<exists>zs'. listenV3_round os (zsockIf_Listen nt z) r zs log w =
      (Ok (Goon ((r + 1) mod n) zs' (log @ map (\<lambda>b. (b, seen_addr c)) bs)), w) \<and>
    \<not> v3_owned zs' r"
  using listenV3_owned [OF assms(6-9), of os "on_captured nt z" log w] feed_heard [OF assms(1-5), of log]
    v3_after_given_back [OF assms(6,7)]
  by (auto simp: zsockIf_Listen_captured)

text \<open>A concrete reading of the accessors, and a block with one datagram of three bytes.\<close>

definition std_nt :: nettypes where
  "std_nt = \<lparr>MACEthertype = \<lambda>f. Uint16 (take 2 (drop 12 f)), MACPayload = \<lambda>f. (drop 14 f, 14),
     ip_Protocol = \<lambda>p. ucast (p ! 9), ip_Length = \<lambda>p. Uint16 (take 2 (drop 2 p)),
     ip_Payload = \<lambda>p. (drop 20 p, 20), ip_SourceIP = \<lambda>p. take 4 (drop 12 p),
     udp_DestinationPort = \<lambda>u. Uint16 (take 2 (drop 2 u)), udp_SourcePort = \<lambda>u. Uint16 (take 2 u),
     udp_Length = \<lambda>u. Uint16 (take 2 (drop 4 u)), udp_Payload = \<lambda>u. (drop 8 u, 8),
     nt_IPv4 = 0x800, nt_UDP = 0x11\<rparr>"

definition demo_frame :: "byte list" where
  "demo_frame = [1, 0, 0x5e, 0, 0, 1, 2, 2, 2, 2, 2, 2, 8, 0, 0x45, 0, 0, 31, 0, 0, 0x40, 0, 2, 0x11, 0, 0,
     10, 0, 0, 1, 224, 0, 0, 1, 22, 227, 22, 226, 0, 11, 0, 0, 7, 8, 9]"

definition heard_block :: "byte list" where
  "heard_block = put_fld 4 8 TP_STATUS_USER (put_fld 4 12 (1 :: u32) (put_fld 4 16 (24 :: u32)
     (demo_pkt 24 0 demo_frame (replicate 112 0))))"

theorem ring_to_ring_witness:
  "\<exists>zs'. listenV3_round null_os (zsockIf_Listen std_nt demo_sender) 0
      ((demo_rx heard_block)\<lparr>numBlocks := 1, zs_blockSize := 112\<rparr>) [] () =
      (Ok (Goon 0 zs' [([7, 8, 9], \<lparr>IP = net_IPv4 10 0 0 1, Port = 5859\<rparr>)]), ())"
proof -
  let ?zs = "(demo_rx heard_block)\<lparr>numBlocks := 1, zs_blockSize := 112\<rparr>"
  have "Uint16 [8, 0] = 0x800" by (simp add: Uint16_def)
  then have nt: "nt_standard std_nt" by (simp add: nt_standard_def std_nt_def)
  have c: "sender_ok demo_sender" by (simp add: sender_ok_def demo_sender_def newZSockIf_def)
  have "zsockIf_copyFx (\<lambda>h. 0) demo_sender (replicate 45 0) [7, 8, 9] 3 = Ok (demo_frame, 45)"
    "unat (45 :: u16) = length demo_frame" by code_simp+
  then have s: "list_all2 (sent_as (\<lambda>h. 0) demo_sender) [[7, 8, 9]] [(demo_frame, 45)]"
    unfolding sent_as_def
    by (simp, intro exI [of _ "replicate 45 (0 :: byte)"] exI [of _ demo_frame]) simp_all
  have "length heard_block = 112" "block_holds 112 heard_block [(demo_frame, 45)]" "block_status heard_block = 1"
    by code_simp+
  then have zs: "v3_good 1 ?zs" "v3_owned ?zs 0" "v3_holds ?zs 0 [(demo_frame, 45)]"
    by (simp_all add: v3_good_def v3_owned_def v3_holds_def v3_block_def demo_rx_def slot_def TP_STATUS_USER_def)
  have "seen_addr demo_sender = \<lparr>IP = net_IPv4 10 0 0 1, Port = 5859\<rparr>" by code_simp
  with ring_to_ring [OF nt c refl s _ zs(1) _ zs(2,3), of null_os "[]" "()"] show ?thesis by auto
qed

end
