(* ===== verification/Ring_Status.thy ===== *)
theory Ring_Status
  imports Rx_Ring
begin

section \<open>Status lines of frames (zsocket.go)\<close>

text \<open>
  The functions that print the status word of a frame, as the text they print. The flags are
  those of linux/if_packet.h; \<open>_TP_STATUS_TS_RAW_HARDWARE\<close> is declared in the source.
\<close>

definition flag :: "u64 \<Rightarrow> u64 \<Rightarrow> string \<Rightarrow> string" where
  "flag b s name = (if 0 < b AND s then name else '''')"

definition printRxTxStatus :: "u64 \<Rightarrow> string" where
  "printRxTxStatus s = flag 0x20000000 s '' Software'' @ flag 0x80000000 s '' Hardware''"

definition printRxStatus :: "byte list \<Rightarrow> string outcome" where
  "printRxStatus raw =
     (if raw = [] then Panic IndexOutOfRange
      else if length raw < 8 then Panic UnsafeAccess
      else
        let s = tp_status_at raw
        in Ok (''RX STATUS :'' @ (if s = 0 then '' Kernel'' else '''') @ flag 1 s '' User'' @ flag 2 s '' Copy'' @
             flag 4 s '' Losing'' @ flag 8 s '' CSUM-NotReady'' @ flag 16 s '' VlanValid'' @
             flag 32 s '' BlkTMO'' @ flag 64 s '' VlanTPIDValid'' @ flag 8 s '' CSUM-Valid'' @
             printRxTxStatus s @ [CHR 0x0A]))"

definition printTxStatus :: "byte list \<Rightarrow> string outcome" where
  "printTxStatus raw =
     (if raw = [] then Panic IndexOutOfRange
      else if length raw < 8 then Panic UnsafeAccess
      else
        let s = tp_status_at raw
        in Ok (''TX STATUS :'' @ (if s = 0 then '' Available'' else '''') @ flag 1 s '' SendRequest'' @
             flag 2 s '' Sending'' @ flag 4 s '' WrongFormat'' @ printRxTxStatus s @ [CHR 0x0A]))"

text \<open>
  The flag \<open>TP_STATUS_CSUM_VALID\<close> (bit 7) never shows: a frame whose checksum the kernel has
  verified prints as if it had not, and one whose checksum is not ready prints as valid too.
\<close>

lemma csum_status_printed:
  "printRxStatus (le_bytes 8 (0x81 :: u64)) = Ok (''RX STATUS : User'' @ [CHR 0x0A])"
  "printRxStatus (le_bytes 8 (0x09 :: u64)) = Ok (''RX STATUS : User CSUM-NotReady CSUM-Valid'' @ [CHR 0x0A])"
  by code_simp+

text \<open>
  A frame the transmit side may write prints neither \<open>SendRequest\<close> nor \<open>Sending\<close>: both tests
  look at the same bits.
\<close>

lemma tx_flags_disjoint:
  "flag 1 s '' SendRequest'' @ flag 2 s '' Sending'' = '''' \<longleftrightarrow> s AND (1 OR 2) = 0"
proof -
  have "s AND (1 OR 2) = (s AND 1) OR (s AND 2)" by (rule bit.conj_disj_distrib)
  then have "s AND (1 OR 2) = 0 \<longleftrightarrow> s AND 1 = 0 \<and> s AND 2 = 0" by (simp only: or_eq_0_iff)
  then show ?thesis by (simp add: flag_def and.commute word_gt_0)
qed

end
