(* ===== verification/Packet_Sys.thy ===== *)
theory Packet_Sys
  imports Sys_Socket Raw_UDP
begin

section \<open>Packet sockets and the C header builder (rsocket.go, socket.go)\<close>

text \<open>
  The remaining code that goes through C: the membership request of a packet socket, the
  batched send of raw frames, and \<open>buildIPv4\<close>, the header builder written in C, which the
  tests of the repository compare with the one written in Go. The structs are byte lists in
  the layout of the C declarations.
\<close>

subsection \<open>Membership of a packet socket\<close>

text \<open>
  The \<open>packet_mreq\<close>: interface, type \<open>PACKET_MR_MULTICAST\<close>, length, and eight bytes of
  address. The code sets six of them; \<open>stack\<close> is what the other two hold.
\<close>

definition packet_mreq :: "byte list \<Rightarrow> int \<Rightarrow> byte list \<Rightarrow> byte list" where
  "packet_mreq stack ifIndex ipAddr =
     le_bytes 4 (of_int ifIndex :: u32) @ le_bytes 2 (0 :: u16) @ le_bytes 2 (6 :: u16) @
     setPacketMultiCast ipAddr @ take 2 stack"

definition JoinPacketMulticast ::
  "'w c_os \<Rightarrow> byte list \<Rightarrow> int \<Rightarrow> byte list \<Rightarrow> int option \<Rightarrow> 'w \<Rightarrow> go_error option outcome \<times> 'w" where
  "JoinPacketMulticast os stack fd maddr ifn w =
     (case ifn of
        None \<Rightarrow> (Panic NilDeref, w)
      | Some ifIndex \<Rightarrow>
          if maddr = [] then (Panic IndexOutOfRange, w)
          else if length maddr < 4 then (Panic UnsafeAccess, w)
          else
            let ((ret, errno), w1) =
                  c_setsockopt os fd SOL_PACKET PACKET_ADD_MEMBERSHIP (packet_mreq stack ifIndex maddr) w
            in (Ok (errno_if (ret \<noteq> 0) errno), w1))"

subsection \<open>Sending batches\<close>

text \<open>The link-layer address of a frame: its first six bytes, on the interface.\<close>

definition setSockaddrl2 :: "byte list \<Rightarrow> int \<Rightarrow> byte list" where
  "setSockaddrl2 sbuf ifIndex =
     le_bytes 2 (17 :: u16) @ htons_bytes 0x0800 @ le_bytes 4 (of_int ifIndex :: u32) @ [0, 0, 0, 6] @
     take 6 sbuf @ [0, 0]"

text \<open>
  A message of the batch is the header and the payload, gathered by the kernel in this order;
  \<open>c_sendmmsg\<close> takes the address and the bytes of every message.
\<close>

definition Sendmmsg2 ::
  "'w c_os \<Rightarrow> int \<Rightarrow> byte list list \<Rightarrow> byte list \<Rightarrow> int \<Rightarrow> 'w \<Rightarrow> (nat \<times> go_error option) outcome \<times> 'w" where
  "Sendmmsg2 os fd bufs pktHdr ifIndex w =
     (if pktHdr = [] then (Panic IndexOutOfRange, w)
      else if length pktHdr < 6 then (Panic UnsafeAccess, w)
      else
        let bs = take 64 bufs; taddr = setSockaddrl2 pktHdr ifIndex
        in if [] \<in> set bs then (Panic IndexOutOfRange, w)
           else
             let ((res, errno), w1) = c_sendmmsg os fd (map (\<lambda>buf. (taddr, pktHdr @ buf)) bs) w
             in (Ok (if res < 0 then (0, Some (Errno errno)) else (nat res, None)), w1))"

subsection \<open>The header builder in C\<close>

definition c_buildIP :: "int \<Rightarrow> byte list \<Rightarrow> byte list \<Rightarrow> byte list" where
  "c_buildIP len src dst =
     [0x45, 0] @ htons_bytes (len + 28) @ [0, 0] @ htons_bytes 0x4000 @ [2, 0x11, 0, 0] @ take 4 src @ take 4 dst"

definition buildIPv4 :: "byte list \<Rightarrow> int \<Rightarrow> byte list \<Rightarrow> byte list \<Rightarrow> byte list outcome" where
  "buildIPv4 buff udpLen src dst =
     (if buff = [] \<or> src = [] \<or> dst = [] then Panic IndexOutOfRange
      else if length buff < 20 \<or> length src < 4 \<or> length dst < 4 then Panic UnsafeAccess
      else Ok (c_buildIP udpLen src dst @ drop 20 buff))"

lemma put_slice_take:
  assumes "lo \<le> hi" "hi \<le> length xs" "hi - lo \<le> length src"
  shows "put_slice xs lo hi (take (hi - lo) src) = put_slice xs lo hi src"
  using assms by (simp add: put_slice_def go_copy_def go_slice_def)

lemma buildIP_take:
  assumes "4 \<le> length src" "4 \<le> length dst"
  shows "buildIP buff udpLen (take 4 src) (take 4 dst) = buildIP buff udpLen src dst"
  using assms put_slice_take [of 12 16 _ src] put_slice_take [of 16 20 _ dst]
  by (simp add: buildIP_def Let_def)

text \<open>
  The two header builders agree: for addresses of four bytes or more \<open>buildIPv4\<close> (in C,
  clearing the header and filling it in) and \<open>buildIP\<close> (in Go, field by field) leave the same
  bytes in every buffer, for every length, and fail on the same buffers.
\<close>

theorem buildIPv4_is_buildIP:
  assumes "4 \<le> length src" "4 \<le> length dst"
  shows "buildIPv4 buff udpLen src dst = buildIP buff udpLen src dst"
proof (cases "length buff < 20")
  case False
  then have "buildIP buff udpLen src dst = Ok (ip_bytes udpLen 0 (take 4 src) (take 4 dst) @ drop 20 buff)"
    using buildIP_Ok [of buff "take 4 src" "take 4 dst"] assms by (simp add: buildIP_take)
  also have "\<dots> = buildIPv4 buff udpLen src dst"
    using False assms by (auto simp: buildIPv4_def c_buildIP_def ip_bytes_def htons_bytes_def PutUint16_def)
  finally show ?thesis ..
qed (use assms in \<open>auto simp: buildIPv4_def buildIP_def\<close>)

theorem buildIPv4_is_buildIP_witness:
  "buildIPv4 (replicate 24 9) 18 [10, 0, 0, 1] [239, 0, 0, 1] =
   Ok [0x45, 0, 0, 46, 0, 0, 0x40, 0, 2, 17, 0, 0, 10, 0, 0, 1, 239, 0, 0, 1, 9, 9, 9, 9] \<and>
   buildIP (replicate 24 9) 18 [10, 0, 0, 1] [239, 0, 0, 1] =
   Ok [0x45, 0, 0, 46, 0, 0, 0x40, 0, 2, 17, 0, 0, 10, 0, 0, 1, 239, 0, 0, 1, 9, 9, 9, 9]"
proof -
  have "buildIPv4 (replicate 24 9) 18 [10, 0, 0, 1] [239, 0, 0, 1] =
   Ok [0x45, 0, 0, 46, 0, 0, 0x40, 0, 2, 17, 0, 0, 10, 0, 0, 1, 239, 0, 0, 1, 9, 9, 9, 9]"
    by code_simp
  then show ?thesis using buildIPv4_is_buildIP [of "[10, 0, 0, 1]" "[239, 0, 0, 1]"] by simp
qed

text \<open>
  A packet socket joins the group whose frames the senders build: the membership request
  that \<open>JoinPacketMulticast\<close> passes carries, after the interface, type and length, the
  hardware address \<open>GetMulticastHWAddr\<close> gives for the group, and an error of the kernel is
  returned.
\<close>

theorem JoinPacketMulticast_joins:
  assumes "length maddr = 4"
  shows "\<exists>mreq. JoinPacketMulticast os stack fd maddr (Some ifIndex) w =
      (let ((ret, errno), w1) = c_setsockopt os fd SOL_PACKET PACKET_ADD_MEMBERSHIP mreq w
       in (Ok (if ret \<noteq> 0 then Some (Errno errno) else None), w1)) \<and>
    fld 4 0 mreq = (of_int ifIndex :: u32) \<and> fld 2 6 mreq = (6 :: u16) \<and>
    take 6 (drop 8 mreq) = GetMulticastHWAddr maddr"
proof -
  let ?m = "packet_mreq stack ifIndex maddr"
  have "JoinPacketMulticast os stack fd maddr (Some ifIndex) w =
      (let ((ret, errno), w1) = c_setsockopt os fd SOL_PACKET PACKET_ADD_MEMBERSHIP ?m w
       in (Ok (if ret \<noteq> 0 then Some (Errno errno) else None), w1))"
    using assms by (auto simp: JoinPacketMulticast_def errno_if_def split: prod.split)
  moreover have "fld 4 0 ?m = (of_int ifIndex :: u32)"
    by (simp add: fld_def packet_mreq_def le_word_le_bytes_full)
  moreover have "fld 2 6 ?m = (6 :: u16)" by (simp add: fld_def packet_mreq_def le_word_le_bytes_full)
  moreover have "take 6 (drop 8 ?m) = GetMulticastHWAddr maddr"
    using assms by (auto simp: packet_mreq_def GetMulticastHWAddr_def setPacketMultiCast_def)
  ultimately show ?thesis by blast
qed

theorem JoinPacketMulticast_joins_witness:
  "\<exists>mreq. JoinPacketMulticast (null_os\<lparr>c_setsockopt := \<lambda>fd l n b w. ((0, 0), b)\<rparr>) [7, 7] 3 [239, 129, 2, 3] (Some 2) [] =
      (Ok None, mreq) \<and> fld 4 0 mreq = (2 :: u32) \<and> fld 2 6 mreq = (6 :: u16) \<and>
    take 6 (drop 8 mreq) = [1, 0, 0x5e, 1, 2, 3]"
proof -
  have "GetMulticastHWAddr [239, 129, 2, 3] = [1, 0, 0x5e, 1, 2, 3]" by code_simp
  with JoinPacketMulticast_joins
    [of "[239, 129, 2, 3]" "null_os\<lparr>c_setsockopt := \<lambda>fd l n b w. ((0, 0), b)\<rparr>" "[7, 7]" 3 2 "[]"]
  show ?thesis by (auto simp: null_os_def)
qed

text \<open>A batch of raw frames: the frames are header and payload, sent to their own first six bytes.\<close>

lemma Sendmmsg2_frames:
  assumes "6 \<le> length pktHdr" "[] \<notin> set (take 64 bufs)"
    and "c_sendmmsg os fd (map (\<lambda>buf. (setSockaddrl2 pktHdr ifIndex, pktHdr @ buf)) (take 64 bufs)) w = ((int n, e), w1)"
  shows "Sendmmsg2 os fd bufs pktHdr ifIndex w = (Ok (n, None), w1) \<and>
    (\<forall>buf. take 6 (drop 12 (setSockaddrl2 pktHdr ifIndex)) = take 6 (pktHdr @ buf))"
  using assms by (auto simp: Sendmmsg2_def setSockaddrl2_def htons_bytes_def PutUint16_def Let_def)

end
