(* ===== verification/Win_Socket.thy ===== *)
theory Win_Socket
  imports Sys_Socket Raw_UDP
begin

section \<open>System calls on Windows (winsock.go)\<close>

text \<open>
  The file that replaces socket.go on Windows: the same functions over Winsock. The record of
  the operating system is that of \<open>Sys_Socket\<close> (\<open>c_close\<close> is \<open>closesocket\<close>), with the two
  functions that start and end the use of Winsock beside it. Each function is translated from
  its own text; the lemmas then say where the two files agree and where they do not.
\<close>

subsection \<open>Winsock\<close>

text \<open>The package's \<open>init\<close>: it panics when \<open>WSAStartup\<close> fails; \<open>wsastart\<close> is its answer.\<close>

definition win_init :: "('w \<Rightarrow> int \<times> 'w) \<Rightarrow> 'w \<Rightarrow> bool \<times> 'w" where
  "win_init wsastart w = (let (ret, w1) = wsastart w in (ret = 0, w1))"

definition WIN_EAGAIN :: int where "WIN_EAGAIN = 11"
definition WIN_EWOULDBLOCK :: int where "WIN_EWOULDBLOCK = 140"

subsection \<open>Headers\<close>

definition win_buildIP :: "byte list \<Rightarrow> int \<Rightarrow> byte list \<Rightarrow> byte list \<Rightarrow> byte list outcome" where
  "win_buildIP buff udpLen src dst =
     (if buff = [] then Panic IndexOutOfRange
      else if length buff < 20 then Panic UnsafeAccess
      else
        let b1 = buff[0 := 0x45, 1 := 0];
            b2 = put_slice b1 2 4 (htons_bytes (udpLen + 28));
            b3 = put_slice b2 4 6 [0, 0];
            b4 = put_slice b3 6 8 (htons_bytes 0x4000);
            b5 = b4[8 := 2, 9 := 0x11];
            b6 = put_slice b5 10 12 [0, 0];
            b7 = put_slice b6 12 16 src
        in Ok (put_slice b7 16 20 dst))"

definition win_buildUDP :: "byte list \<Rightarrow> int \<Rightarrow> int \<Rightarrow> byte list outcome" where
  "win_buildUDP buff dstPort dataLen =
     (if buff = [] then Panic IndexOutOfRange
      else if length buff < 8 then Panic UnsafeAccess
      else
        let b1 = put_slice buff 0 2 (htons_bytes (dstPort + 1));
            b2 = put_slice b1 2 4 (htons_bytes dstPort);
            b3 = put_slice b2 4 6 (htons_bytes (dataLen + 8))
        in Ok (put_slice b3 6 8 [0, 0]))"

definition win_buildRawUDP ::
  "(byte list \<Rightarrow> u16) \<Rightarrow> byte list \<Rightarrow> int \<Rightarrow> int \<Rightarrow> byte list \<Rightarrow> byte list \<Rightarrow> byte list outcome" where
  "win_buildRawUDP cks buff udpLen port src dst =
     (if length buff \<le> 13 then Panic IndexOutOfRange
      else
        let b1 = buff[12 := 8, 13 := 0]
        in bind_outcome (at_offset 14 (\<lambda>b. win_buildIP b udpLen src dst) b1) (\<lambda>b2.
             let ckSum = cks (drop 14 b2);
                 b3 = b2[24 := ucast (drop_bit 8 ckSum), 25 := ucast (ckSum AND 0xff)]
             in at_offset 34 (\<lambda>b. win_buildUDP b port udpLen) b3))"

subsection \<open>Options and sockets\<close>

text \<open>\<open>SetsockoptInt\<close> passes all eight bytes of its argument.\<close>

definition win_GetsockoptInt ::
  "'w c_os \<Rightarrow> int \<Rightarrow> so_level \<Rightarrow> so_name \<Rightarrow> 'w \<Rightarrow> (int \<times> go_error option) \<times> 'w" where
  "win_GetsockoptInt os fd level opt w =
     (let (((ret, errno), bytes), w1) = c_getsockopt os fd level opt 8 w;
          value = sint (le_word (go_copy (replicate 8 0) bytes) :: u64)
      in ((value, errno_if (ret \<noteq> 0) errno), w1))"

definition win_SetsockoptInt ::
  "'w c_os \<Rightarrow> int \<Rightarrow> so_level \<Rightarrow> so_name \<Rightarrow> int \<Rightarrow> 'w \<Rightarrow> go_error option \<times> 'w" where
  "win_SetsockoptInt os fd level opt val w =
     (let ((ret, errno), w1) = c_setsockopt os fd level opt (le_bytes 8 (of_int val :: u64)) w
      in (errno_if (ret \<noteq> 0) errno, w1))"

definition win_Socket :: "'w c_os \<Rightarrow> int \<Rightarrow> int \<Rightarrow> int \<Rightarrow> 'w \<Rightarrow> (int \<times> go_error option) \<times> 'w" where
  "win_Socket os domain typ proto w =
     (let ((fd, errno), w1) = c_socket os domain typ proto w
      in ((fd, errno_if (fd < 0) errno), w1))"

text \<open>Closing a socket also ends the use of Winsock.\<close>

definition win_Close :: "'w c_os \<Rightarrow> ('w \<Rightarrow> 'w) \<Rightarrow> int \<Rightarrow> 'w \<Rightarrow> go_error option \<times> 'w" where
  "win_Close os wsacleanup fd w =
     (let ((ret, errno), w1) = c_close os fd w
      in (errno_if (ret < 0) errno, wsacleanup w1))"

definition win_LocalAddr :: "'w c_os \<Rightarrow> int \<Rightarrow> 'w \<Rightarrow> SockaddrInet4 option \<times> 'w" where
  "win_LocalAddr os fd w =
     (let (((ret, errno), sa), w1) = c_getsockname os fd w
      in (if ret < 0 then None else Some (sockaddr_of (written_sockaddr sa)), w1))"

definition win_Bind :: "'w c_os \<Rightarrow> int \<Rightarrow> SockaddrInet4 \<Rightarrow> 'w \<Rightarrow> go_error option \<times> 'w" where
  "win_Bind os fd laddr w =
     (let ((ret, errno), w1) = c_bind os fd (newSockaddrIn (sa_Port laddr) (sa_Addr laddr)) w
      in (errno_if (ret < 0) errno, w1))"

definition win_hard_error :: "int \<Rightarrow> int \<Rightarrow> go_error option" where
  "win_hard_error ret errno =
     errno_if (ret < 0 \<and> errno \<noteq> 0 \<and> errno \<noteq> WIN_EAGAIN \<and> errno \<noteq> WIN_EWOULDBLOCK) errno"

definition win_Recvfrom ::
  "'w c_os \<Rightarrow> int \<Rightarrow> byte list \<Rightarrow> int \<Rightarrow> 'w \<Rightarrow>
   (int \<times> SockaddrInet4 \<times> go_error option \<times> byte list) outcome \<times> 'w" where
  "win_Recvfrom os fd p flags w =
     (if p = [] then (Panic IndexOutOfRange, w)
      else
        let (((ret, errno), data, sa), w1) = c_recvfrom os fd (length p) flags w;
            err = win_hard_error ret errno;
            n = (if ret < 0 then 0 else ret)
        in (Ok (n, sockaddr_of (written_sockaddr sa), err, go_copy p data), w1))"

text \<open>There is no case for a nil destination or buffer here.\<close>

definition win_Sendto ::
  "'w c_os \<Rightarrow> int \<Rightarrow> byte list option \<Rightarrow> int \<Rightarrow> SockaddrInet4 option \<Rightarrow> 'w \<Rightarrow>
   (int \<times> go_error option) outcome \<times> 'w" where
  "win_Sendto os fd p flags to w =
     (case to of
        None \<Rightarrow> (Panic NilDeref, w)
      | Some a \<Rightarrow>
          (case p of
             None \<Rightarrow> (Panic IndexOutOfRange, w)
           | Some buf \<Rightarrow>
               if buf = [] then (Panic IndexOutOfRange, w)
               else
                 let ((ret, errno), w1) =
                       c_sendto os fd (Some buf) flags (Some (newSockaddrIn (sa_Port a) (sa_Addr a))) w
                 in (Ok (ret, win_hard_error ret errno), w1)))"

subsection \<open>Tuning and multicast\<close>

definition win_ReserveRecvBuf :: "'w c_os \<Rightarrow> int \<Rightarrow> 'w \<Rightarrow> 'w" where
  "win_ReserveRecvBuf os fd w =
     (let (r1, w1) = win_GetsockoptInt os fd SOL_SOCKET SO_RCVBUF w;
          (r2, w2) = win_SetsockoptInt os fd SOL_SOCKET SO_RCVBUF (4 * 1024 * 1024) w1;
          (r3, w3) = win_GetsockoptInt os fd SOL_SOCKET SO_RCVBUF w2
      in w3)"

definition win_ReserveSendBuf :: "'w c_os \<Rightarrow> int \<Rightarrow> 'w \<Rightarrow> 'w" where
  "win_ReserveSendBuf os fd w =
     (let (r1, w1) = win_GetsockoptInt os fd SOL_SOCKET SO_SNDBUF w;
          (r2, w2) = win_SetsockoptInt os fd SOL_SOCKET SO_SNDBUF (2 * 1024 * 1024) w1;
          (r3, w3) = win_GetsockoptInt os fd SOL_SOCKET SO_SNDBUF w2
      in w3)"

definition win_JoinMulticast ::
  "'w c_os \<Rightarrow> (string \<Rightarrow> byte list) \<Rightarrow> string \<Rightarrow> int \<Rightarrow> byte list \<Rightarrow> net_Interface option \<Rightarrow> 'w \<Rightarrow>
   go_error option \<times> 'w" where
  "win_JoinMulticast os parseIP laddr fd maddr ifn w =
     (let m0 = put_slice (replicate 8 0) 0 4 maddr;
          mreq =
            (if ifn \<noteq> None then
               (case getIfAddr parseIP ifn of
                  (adr, err) \<Rightarrow> if err = None then put_slice m0 4 8 (To4 adr) else m0)
             else if parseIP laddr \<noteq> [] then put_slice m0 4 8 (To4 (parseIP laddr)) else m0);
          ((res, errno), w1) = c_setsockopt os fd IPPROTO_IP IP_ADD_MEMBERSHIP mreq w
      in (errno_if (res \<noteq> 0) errno, w1))"

definition win_SetMulticastInterface ::
  "'w c_os \<Rightarrow> (string \<Rightarrow> byte list) \<Rightarrow> int \<Rightarrow> net_Interface option \<Rightarrow> 'w \<Rightarrow> go_error option \<times> 'w" where
  "win_SetMulticastInterface os parseIP fd ifn w =
     (if ifn = None then (None, w)
      else
        (case getIfAddr parseIP ifn of
           (adr, Some e) \<Rightarrow> (Some e, w)
         | (adr, None) \<Rightarrow>
             let ((res, errno), w1) =
                   c_setsockopt os fd IPPROTO_IP IP_MULTICAST_IF (go_copy (replicate 4 0) (To4 adr)) w
             in (errno_if (res \<noteq> 0) errno, w1)))"

definition win_ExitMulticast :: "'w c_os \<Rightarrow> int \<Rightarrow> byte list \<Rightarrow> 'w \<Rightarrow> 'w" where
  "win_ExitMulticast os fd maddr w =
     snd (c_setsockopt os fd IPPROTO_IP IP_DROP_MEMBERSHIP (put_slice (replicate 8 0) 0 4 (To4 maddr)) w)"

definition win_SetMulticastTTL :: "'w c_os \<Rightarrow> int \<Rightarrow> int \<Rightarrow> 'w \<Rightarrow> go_error option \<times> 'w" where
  "win_SetMulticastTTL os fd ttl = win_SetsockoptInt os fd IPPROTO_IP IP_MULTICAST_TTL ttl"

definition win_SetMulticastLoop :: "'w c_os \<Rightarrow> int \<Rightarrow> bool \<Rightarrow> 'w \<Rightarrow> go_error option \<times> 'w" where
  "win_SetMulticastLoop os fd bLoop =
     win_SetsockoptInt os fd IPPROTO_IP IP_MULTICAST_LOOP (if bLoop then 1 else 0)"

definition win_SetBroadcast :: "'w c_os \<Rightarrow> int \<Rightarrow> bool \<Rightarrow> 'w \<Rightarrow> go_error option \<times> 'w" where
  "win_SetBroadcast os fd bLoop =
     win_SetsockoptInt os fd SOL_SOCKET SO_BROADCAST (if bLoop then 1 else 0)"

subsection \<open>Agreement with socket.go\<close>

lemma win_buildRawUDP_same: "win_buildRawUDP cks buff udpLen port src dst = buildRawUDP cks buff udpLen port src dst"
proof -
  have "win_buildIP = buildIP" "win_buildUDP = buildUDP"
    by (simp_all add: fun_eq_iff win_buildIP_def buildIP_def win_buildUDP_def buildUDP_def Let_def)
  then show ?thesis by (simp add: win_buildRawUDP_def buildRawUDP_def)
qed

lemma win_JoinMulticast_same: "win_JoinMulticast = JoinMulticast"
  by (auto simp: fun_eq_iff win_JoinMulticast_def JoinMulticast_def join_mreq_def Let_def
      split: option.split prod.split)

lemma win_SetMulticastInterface_same: "win_SetMulticastInterface = SetMulticastInterface"
  by (auto simp: fun_eq_iff win_SetMulticastInterface_def SetMulticastInterface_def Let_def
      split: option.split prod.split)

end
