(* ===== verification/Sys_Props.thy ===== *)
theory Sys_Props
  imports Win_Socket Client_Model
begin

section \<open>What the system call wrappers guarantee\<close>

text \<open>
  Socket addresses survive the way through the kernel's structs and through their printed form,
  waiting ends when the clock moves on, and the Windows file agrees with the other one except
  for the cases it names.
\<close>

subsection \<open>Addresses in memory\<close>

lemma sockaddr_of_new:
  assumes "length addr = 4" "0 \<le> port" "port < 65536"
  shows "sockaddr_of (written_sockaddr (newSockaddrIn port addr)) = \<lparr>sa_Port = port, sa_Addr = addr\<rparr>"
proof -
  have "written_sockaddr (newSockaddrIn port addr) = newSockaddrIn port addr"
    using assms(1) by (simp add: written_sockaddr_def newSockaddrIn_def go_copy_def)
  moreover have "uint (of_int port :: u16) = port" using assms(2,3) by (simp add: uint_word_of_int)
  ultimately show ?thesis using assms(1)
    by (simp add: sockaddr_of_def sin_port_host_def copyAddr_def newSockaddrIn_def)
qed

text \<open>
  A system that reports for a socket the address it was bound to, and hands a datagram over
  with the address of its sender: the documented behaviour of \<open>getsockname\<close>.
\<close>

definition reports_bound :: "'w c_os \<Rightarrow> bool" where
  "reports_bound os \<longleftrightarrow>
     (\<forall>fd sa w e w'. c_bind os fd sa w = ((0, e), w') \<longrightarrow>
        (\<exists>e' w''. c_getsockname os fd w' = (((0, e'), sa), w'')))"

definition book_os :: "byte list c_os" where
  "book_os = null_os\<lparr>c_getsockname := \<lambda>fd w. (((0, 0), w), w), c_bind := \<lambda>fd a w. ((0, 0), a)\<rparr>"

subsection \<open>Waiting\<close>

lemma sleep_loop_from:
  assumes "\<forall>j. k \<le> j \<and> j < m \<longrightarrow> clock j - tt < interv" "interv \<le> clock m - tt" "k \<le> m"
  shows "sleep_loop clock tt interv k = Some m"
  using assms
proof (induction "m - k" arbitrary: k)
  case 0
  then have "k = m" by simp
  with "0.prems" show ?case by (subst sleep_loop.simps) simp
next
  case (Suc d)
  then have k: "k < m" by simp
  with Suc.prems(1) have "clock k - tt < interv" by simp
  moreover have "sleep_loop clock tt interv (k + 1) = Some m"
    using Suc.hyps(2) Suc.prems k by (intro Suc.hyps(1)) auto
  ultimately show ?case by (subst sleep_loop.simps) simp
qed

lemma sleep_loop_Some:
  "sleep_loop clock tt interv k = Some m \<Longrightarrow>
   k \<le> m \<and> interv \<le> clock m - tt \<and> (\<forall>j. k \<le> j \<and> j < m \<longrightarrow> clock j - tt < interv)"
proof (rule sleep_loop.raw_induct [where P = "\<lambda>clock tt interv k m.
    k \<le> m \<and> interv \<le> clock m - tt \<and> (\<forall>j. k \<le> j \<and> j < m \<longrightarrow> clock j - tt < interv)"])
  fix sl :: "(nat \<Rightarrow> int) \<Rightarrow> int \<Rightarrow> int \<Rightarrow> nat \<Rightarrow> nat option" and clock tt interv k m
  assume IH: "\<And>clock tt interv k m. sl clock tt interv k = Some m \<Longrightarrow>
      k \<le> m \<and> interv \<le> clock m - tt \<and> (\<forall>j. k \<le> j \<and> j < m \<longrightarrow> clock j - tt < interv)"
    and body: "(let du = clock k - tt in if du < interv then sl clock tt interv (k + 1) else Some k) = Some m"
  show "k \<le> m \<and> interv \<le> clock m - tt \<and> (\<forall>j. k \<le> j \<and> j < m \<longrightarrow> clock j - tt < interv)"
  proof (cases "clock k - tt < interv")
    case True
    with body have "sl clock tt interv (k + 1) = Some m" by simp
    note * = IH [OF this]
    have "clock j - tt < interv" if "k \<le> j" "j < m" for j
      using * True that by (cases "j = k") auto
    with * show ?thesis by auto
  next
    case False
    with body show ?thesis by auto
  qed
qed

subsection \<open>Properties\<close>

text \<open>
  A socket address survives the structs of the kernel: after \<open>Bind\<close> to an address,
  \<open>LocalAddr\<close> reports that address, on every system that reports the address a socket was
  bound to.
\<close>

theorem Bind_LocalAddr:
  assumes "reports_bound os" "c_bind os fd (newSockaddrIn (sa_Port a) (sa_Addr a)) w = ((0, e), w')"
    and "length (sa_Addr a) = 4" "0 \<le> sa_Port a" "sa_Port a < 65536"
  shows "Bind os fd a w = (None, w') \<and> fst (LocalAddr os fd w') = Some a"
proof -
  obtain e' w'' where "c_getsockname os fd w' = (((0, e'), newSockaddrIn (sa_Port a) (sa_Addr a)), w'')"
    using assms(1,2) unfolding reports_bound_def by blast
  with assms(2) sockaddr_of_new [OF assms(3-5)] show ?thesis
    by (simp add: Bind_def LocalAddr_def errno_if_def)
qed

theorem Bind_LocalAddr_witness:
  "Bind book_os 3 \<lparr>sa_Port = 5858, sa_Addr = [10, 0, 0, 1]\<rparr> [] =
     (None, [2, 0, 22, 226, 10, 0, 0, 1, 0, 0, 0, 0, 0, 0, 0, 0]) \<and>
   fst (LocalAddr book_os 3 [2, 0, 22, 226, 10, 0, 0, 1, 0, 0, 0, 0, 0, 0, 0, 0]) =
     Some \<lparr>sa_Port = 5858, sa_Addr = [10, 0, 0, 1]\<rparr>"
proof -
  have "reports_bound book_os" by (simp add: reports_bound_def book_os_def null_os_def)
  moreover have "c_bind book_os 3 (newSockaddrIn 5858 [10, 0, 0, 1]) [] =
      ((0, 0), [2, 0, 22, 226, 10, 0, 0, 1, 0, 0, 0, 0, 0, 0, 0, 0])" by code_simp
  ultimately show ?thesis
    using Bind_LocalAddr [of book_os 3 "\<lparr>sa_Port = 5858, sa_Addr = [10, 0, 0, 1]\<rparr>"] by simp
qed

text \<open>
  C36. The printed form of a socket address determines it: the reference reader gets every
  address back from \<open>String\<close>, so two addresses print alike only if they are equal; and the
  printed form of hardware addresses of six bytes is injective as well.
\<close>

theorem printed_addresses_read_back:
  assumes "length (sa_Addr a) = 4" "0 \<le> sa_Port a" "length h = 6" "length h' = 6"
  shows "read_addr (Sockaddr_String a) = a \<and>
    (HardwareAddr_String h = HardwareAddr_String h' \<longleftrightarrow> h = h')"
proof -
  have l: "length (fmt_02x x) = 2" for x by (simp add: fmt_02x_def)
  have six: "\<exists>x0 x1 x2 x3 x4 x5. y = [x0, x1, x2, x3, x4, x5]" if "length y = 6" for y :: "byte list"
    using that by (auto simp: numeral_eq_Suc length_Suc_conv)
  from six [OF assms(3)] six [OF assms(4)] have "HardwareAddr_String h = HardwareAddr_String h' \<longleftrightarrow> h = h'"
    by (auto simp: HardwareAddr_String_def fmt_02x_inj l)
  with read_addr_String [OF assms(1,2)] show ?thesis by simp
qed

theorem printed_addresses_read_back_witness:
  "Sockaddr_String \<lparr>sa_Port = 58, sa_Addr = [239, 192, 168, 1]\<rparr> = ''239.192.168.1:58'' \<and>
   read_addr ''239.192.168.1:58'' = \<lparr>sa_Port = 58, sa_Addr = [239, 192, 168, 1]\<rparr> \<and>
   HardwareAddr_String [1, 0, 0x5e, 0, 0, 1] = Ok ''01:00:5e:00:00:01'' \<and>
   HardwareAddr_String [1, 0, 0x5e, 0, 0, 1] \<noteq> HardwareAddr_String [1, 0, 0x5e, 0, 1, 0]"
proof -
  have s: "Sockaddr_String \<lparr>sa_Port = 58, sa_Addr = [239, 192, 168, 1]\<rparr> = ''239.192.168.1:58''"
    "HardwareAddr_String [1, 0, 0x5e, 0, 0, 1] = Ok ''01:00:5e:00:00:01''" by code_simp+
  from printed_addresses_read_back [of "\<lparr>sa_Port = 58, sa_Addr = [239, 192, 168, 1]\<rparr>"
      "[1, 0, 0x5e, 0, 0, 1]" "[1, 0, 0x5e, 0, 1, 0]"] s
  show ?thesis by simp
qed

text \<open>
  C37. \<open>Sleep\<close> ends at the first reading of the clock that is at least the interval after the
  start, and it ends at all if and only if there is such a reading.
\<close>

theorem Sleep_returns:
  "(Sleep clock interv = Some m \<longleftrightarrow>
      1 \<le> m \<and> interv \<le> clock m - clock 0 \<and> (\<forall>j. 1 \<le> j \<and> j < m \<longrightarrow> clock j - clock 0 < interv)) \<and>
   (Sleep clock interv \<noteq> None \<longleftrightarrow> (\<exists>k \<ge> 1. interv \<le> clock k - clock 0))"
proof -
  have iff: "Sleep clock interv = Some m \<longleftrightarrow>
      1 \<le> m \<and> interv \<le> clock m - clock 0 \<and> (\<forall>j. 1 \<le> j \<and> j < m \<longrightarrow> clock j - clock 0 < interv)" for m
    using sleep_loop_Some [of clock "clock 0" interv 1 m] sleep_loop_from [of 1 m clock "clock 0" interv]
    unfolding Sleep_def by blast
  have "Sleep clock interv \<noteq> None" if "1 \<le> k" "interv \<le> clock k - clock 0" for k
  proof -
    let ?P = "\<lambda>k. 1 \<le> k \<and> interv \<le> clock k - clock 0"
    have "?P (LEAST k. ?P k)" using that by (intro LeastI [of ?P]) simp
    moreover have "\<forall>j. 1 \<le> j \<and> j < (LEAST k. ?P k) \<longrightarrow> clock j - clock 0 < interv"
      using not_less_Least [of _ ?P] by force
    ultimately have "Sleep clock interv = Some (LEAST k. ?P k)" using iff by blast
    then show ?thesis by simp
  qed
  with iff show ?thesis by (metis option.exhaust)
qed

theorem Sleep_returns_witness:
  "Sleep (\<lambda>k. 3 * int k) 7 = Some 3"
proof -
  have "1 \<le> j \<and> j < 3 \<longrightarrow> 3 * int j - 3 * int 0 < 7" for j by auto
  with Sleep_returns [of "\<lambda>k. 3 * int k" 7 3] show ?thesis by simp
qed

text \<open>
  Where the Windows file and socket.go differ. Sending to a given address and receiving give the
  same results unless the error is the one that only Windows numbers differently
  (\<open>EWOULDBLOCK\<close>). Integer options are passed as four bytes by socket.go and as eight by the
  Windows file, and a missing destination is a flush for socket.go and a nil pointer for the
  Windows file.
\<close>

theorem windows_differs:
  assumes "snd (fst (c_sendto os fd (Some buf) flags (Some (newSockaddrIn (sa_Port a) (sa_Addr a))) w)) \<noteq> WIN_EWOULDBLOCK"
    and "snd (fst (fst (c_recvfrom os fd (length buf) flags w))) \<noteq> WIN_EWOULDBLOCK"
  shows "win_Sendto os fd (Some buf) flags (Some a) w = Sendto os fd (Some buf) flags (Some a) w \<and>
   win_Recvfrom os fd buf flags w = Recvfrom os fd buf flags w \<and>
   SetsockoptInt os fd level opt val w = Setsockopt os fd level opt (le_bytes 4 (of_int val :: u32)) w \<and>
   win_SetsockoptInt os fd level opt val w = Setsockopt os fd level opt (le_bytes 8 (of_int val :: u64)) w \<and>
   win_Sendto os fd p flags None w = (Panic NilDeref, w) \<and> \<not> is_panic (fst (Sendto os fd p flags None w))"
proof (intro conjI)
  have agree: "win_hard_error ret errno = hard_error ret errno" if "errno \<noteq> WIN_EWOULDBLOCK" for ret errno
    using that by (simp add: win_hard_error_def hard_error_def WIN_EAGAIN_def EAGAIN_def EWOULDBLOCK_def)
  show "win_Sendto os fd (Some buf) flags (Some a) w = Sendto os fd (Some buf) flags (Some a) w"
    using assms(1) agree by (auto simp: win_Sendto_def Sendto_def split: prod.split)
  show "win_Recvfrom os fd buf flags w = Recvfrom os fd buf flags w"
    using assms(2) agree by (auto simp: win_Recvfrom_def Recvfrom_def split: prod.split)
  show "SetsockoptInt os fd level opt val w = Setsockopt os fd level opt (le_bytes 4 (of_int val :: u32)) w"
    using le_bytes_take [of 4 8 "of_int val :: u64"] le_bytes_low [of 4, where 'a = 64 and 'b = 32]
    by (simp add: SetsockoptInt_def Setsockopt_def)
  show "\<not> is_panic (fst (Sendto os fd p flags None w))" by (simp add: Sendto_def split: prod.split)
qed (simp_all add: win_Sendto_def win_SetsockoptInt_def Setsockopt_def)

subsection \<open>The end of Winsock\<close>

text \<open>
  Winsock counts the calls of \<open>WSAStartup\<close>, of which the package makes one, and refuses sockets
  when each was matched by \<open>WSACleanup\<close>; \<open>count\<close> reads the counter. After the first \<open>Close\<close> no
  socket can be opened any more.
\<close>

lemma win_close_ends_winsock:
  assumes "count w = (1 :: nat)" "\<And>fd w. count (snd (c_close os fd w)) = count w"
    and "\<And>w. count (wsacleanup w) = count w - 1"
    and "\<And>d t p w. count w = 0 \<Longrightarrow> fst (fst (c_socket os d t p w)) < 0"
  shows "snd (fst (win_Socket os d t p (snd (win_Close os wsacleanup fd w)))) \<noteq> None"
proof -
  have "count (snd (win_Close os wsacleanup fd w)) = 0"
    using assms(1) assms(2) [of fd w] assms(3) by (auto simp: win_Close_def split: prod.split)
  from assms(4) [OF this, of d t p] show ?thesis
    by (auto simp: win_Socket_def errno_if_def split: prod.split)
qed

text \<open>A call that would block is reported as no bytes and no error.\<close>

lemma Recvfrom_would_block:
  assumes "p \<noteq> []" "c_recvfrom os fd (length p) flags w = (((-1, EAGAIN), data, sa), w')"
  shows "\<exists>from p'. Recvfrom os fd p flags w = (Ok (0, from, None, p'), w')"
  using assms by (simp add: Recvfrom_def hard_error_def errno_if_def)

end
