(* ===== verification/Spec2Isabelle.thy ===== *)
theory Spec2Isabelle
  imports Client_Live Handlers Cache_Memory Recovery Cmd_Client Tx_Writers Ring_Path Ring_Status Packet_Sys Sys_Props
begin

text \<open>
  \<^bold>\<open>A verification of go-mold.\<close>  The package receives and sends MoldUDP64 sessions: a server numbers
  the messages of a session, packs them into UDP datagrams and multicasts these; a client puts
  the messages back in order, asks a retransmission server for those it misses and stops at the
  end of the session.

  \<^bold>\<open>The parts of the program and how they interact.\<close>

  \<^item> \<^emph>\<open>Codec\<close> (src/moldUDP.go): \<^verbatim>\<open>EncodeHead\<close>, \<^verbatim>\<open>DecodeHead\<close>, \<^verbatim>\<open>Marshal\<close>, \<^verbatim>\<open>Unmarshal\<close>.
  \<^item> \<^emph>\<open>Message cache\<close> (src/msgCache.go): a growing table of pages that keeps the messages that came
    ahead of their turn.
  \<^item> \<^emph>\<open>Client\<close> (src/client.go): three goroutines over one structure.  \<^verbatim>\<open>doMsgLoop\<close> takes datagrams
    from a connection, checks them in \<^verbatim>\<open>gotBuff\<close> and queues them on a channel; \<^verbatim>\<open>requestLoop\<close> takes
    them from the channel into \<^verbatim>\<open>doMsgBuf\<close>, which delivers or caches them, and sends requests; the
    caller's \<^verbatim>\<open>Read\<close> takes what was delivered under a lock and decides when the session is over.
  \<^item> \<^emph>\<open>Connections\<close> (src/mcast.go, src/sockif.go, src/sockif_linux.go, src/sockif_notlnx.go,
    src/zsockif.go): three implementations of \<^verbatim>\<open>McastConn\<close> behind a registry.
  \<^item> \<^emph>\<open>Raw frames and packet filter\<close> (src/socket.go, src/rsocket.go): the Ethernet, IPv4 and UDP
    headers of a frame, the BPF program that selects the frames of a port, group addresses.
  \<^item> \<^emph>\<open>Packet socket\<close> (src/zsocket.go): a socket opened by \<^verbatim>\<open>NewZSocket\<close> whose frames are memory shared
    with the kernel.  The transmit ring is written by \<^verbatim>\<open>CopyToBuffer\<close> and handed over by
    \<^verbatim>\<open>FlushFrames\<close>; the receive ring is read by \<^verbatim>\<open>listenV1\<close> or \<^verbatim>\<open>listenV3\<close> with \<^verbatim>\<open>walkBlock\<close>, which call
    a function for every captured packet.
  \<^item> \<^emph>\<open>System calls\<close> (src/socket.go, src/rsocket.go; src/winsock.go on Windows): wrappers over the C
    library, address structs, socket options, group membership.
  \<^item> \<^emph>\<open>Command line client\<close> (src/cmd/client/main.go): a reader, a main loop with a watchdog, and a
    signal handler around a client.

  \<^bold>\<open>The theories.\<close>

  \<^item> \<^verbatim>\<open>Mold_Prelude\<close>: outcomes of Go code (\<open>outcome\<close>: a value, an error, a panic), errors, slices,
    byte order, generic lemmas and the collections of simplification rules.
  \<^item> \<^verbatim>\<open>Mold_Codec\<close>: the codec, a definition per function and loop, the interface \<open>framing\<close> (round
    trips of header and body) with its interpretation.  Properties: both round trips, the exact
    set of bodies \<open>Unmarshal\<close> accepts, greediness of \<open>Marshal\<close>, \<open>DecodeHead\<close> against a reference
    with right trimming, and the sessions of one byte that differ.
  \<^item> \<^verbatim>\<open>Cache_Spec\<close>, \<^verbatim>\<open>Msg_Cache\<close>: the interface \<open>seq_cache\<close> (a map from sequence numbers to
    messages) with the client's storing loop proved once in it; the paged cache, its invariant,
    and the interpretation.  Properties: \<open>Upset\<close> refines the update of the map, \<open>Merge\<close> returns the
    maximal run.
  \<^item> \<^verbatim>\<open>Client_Model\<close>: the state of \<^verbatim>\<open>Client\<close> as a record and every handler of src/client.go;
    \<^verbatim>\<open>Client_Lemmas\<close>: each handler never panics on states of the invariant, what it changes.
  \<^item> \<^verbatim>\<open>Delivery\<close>: the reassembly invariant against an abstract stream of messages.
  \<^item> \<^verbatim>\<open>Step_System\<close>, \<^verbatim>\<open>Client_System\<close>: reachability and invariants in general; the three goroutines
    as an inductive step relation in which the code before the lock in \<^verbatim>\<open>doMsgBuf\<close>, the code under
    it, and the two halves of a round of \<^verbatim>\<open>Read\<close> are separate steps, and an executable schedule.
  \<^item> \<^verbatim>\<open>Client_Props\<close>, \<^verbatim>\<open>Client_Live\<close>: what holds in every reachable state: in-order, gap-free,
    exactly-once delivery for every loss, repetition and order of packets; the sequence number as
    the first missing one; completeness; when \<open>bDone\<close> may be set; the race at the end of a session;
    that a complete session lets \<^verbatim>\<open>Read\<close> stop.
  \<^item> \<^verbatim>\<open>Cache_Memory\<close>: no handler panics, and the number of pages the cache takes is bounded by the
    sequence numbers on the wire; one datagram is enough to reach that bound.
  \<^item> \<^verbatim>\<open>Handlers\<close>, \<^verbatim>\<open>Retransmission\<close>: the handlers branch by branch; what a request asks for, how
    often requests are sent, to whom, and which packets lead to one.
  \<^item> \<^verbatim>\<open>Raw_UDP\<close>: an interpreter of classic BPF, the filter of src/rsocket.go, the header builders
    of src/socket.go.  Properties: the exact set of frames accepted, the exact bytes built, and
    that a built frame passes the filter of its own port only.
  \<^item> \<^verbatim>\<open>ZSocket_Ring\<close>, \<^verbatim>\<open>Ring_Lemmas\<close>, \<^verbatim>\<open>Frame_Queue\<close>, \<^verbatim>\<open>Ring_Props\<close>: sizes of the ring, frames
    and their status, writing and flushing; the interface \<open>frame_queue\<close> and its interpretation.
    Properties: writing appends to the pending frames, flushing lets the kernel find exactly these
    marked and leaves in the ring what it makes of them, the size mapped is that of the frames; the
    two error paths that break the ring.
  \<^item> \<^verbatim>\<open>Tx_Writers\<close>: \<^verbatim>\<open>CopyToBuffer\<close> as the steps between its atomic operations, for any number of
    goroutines.  Properties: they never share a frame nor overwrite each other, \<^verbatim>\<open>CopyToBuffer\<close> is the
    run of one of them alone, and \<^verbatim>\<open>FlushFrames\<close> misses a frame when they finish out of order.
  \<^item> \<^verbatim>\<open>Recovery\<close>: rounds of a tick, the request it sends and the datagrams that come in on the group
    afterwards, through \<^verbatim>\<open>gotBuff\<close> and \<^verbatim>\<open>requestLoop\<close>; when those the client admits contain what was
    asked for, every gap it knows of is closed.  That they come in on the group is a hypothesis: the
    server is not part of the repository, and the client does not read the socket it sends requests on.
  \<^item> \<^verbatim>\<open>Mcast_If\<close>, \<^verbatim>\<open>Mcast_Props\<close>: the three connections, the interface \<open>mcast_conn\<close> (opening and
    closing) interpreted on each, batches, the receive operation the client chooses.
  \<^item> \<^verbatim>\<open>C_Memory\<close>, \<^verbatim>\<open>Net_Addr\<close>, \<^verbatim>\<open>Sys_Socket\<close>, \<^verbatim>\<open>Packet_Sys\<close>, \<^verbatim>\<open>Win_Socket\<close>, \<^verbatim>\<open>Sys_Props\<close>: fields of C structs
    in byte lists; addresses and their printed form; every wrapper of a system call, over a record
    of C functions; the packet sockets and the header builder in C; the Windows file.  Properties:
    printed addresses read back, the address a socket was bound to is the one reported, \<^verbatim>\<open>Sleep\<close>
    ends exactly when the clock allows; as lemmas, where the Windows file differs from the other one,
    and that the header builders in C and Go agree.
  \<^item> \<^verbatim>\<open>Rx_Ring\<close>, \<^verbatim>\<open>Slot_Ring\<close>, \<^verbatim>\<open>Rx_Lemmas\<close>, \<^verbatim>\<open>Rx_Props\<close>, \<^verbatim>\<open>Ring_Status\<close>: the receive ring as bytes that the kernel and
    the loop take turns to own; the interface \<open>slot_ring\<close> (a ring of slots with one writer and one
    reader) in which the queue property is proved once, interpreted on both versions of the ring;
    the printed status.  Properties: a block is handed over packet by packet and given back, and
    under every interleaving the packets reach the callback in order, each once.
  \<^item> \<^verbatim>\<open>ZSocket_Open\<close>: \<^verbatim>\<open>NewZSocket\<close> with all its system calls; an opened socket works on the slots of the
    mapping, whatever the kernel has put there, in a state of the invariants of the rings.
  \<^item> \<^verbatim>\<open>Ring_Path\<close>: from \<^verbatim>\<open>Send\<close> on one ring to the callback of \<^verbatim>\<open>Listen\<close> on another.
  \<^item> \<^verbatim>\<open>Cmd_Client\<close>: the command, as steps around the client system, with the statements of its reader
    one by one; what it reports, when its watchdog stops it, and the race at its end.

  \<^bold>\<open>How state and operations correspond.\<close>  A structure of the code is a record with the same fields
  (\<open>Header\<close>, \<open>Message\<close>, \<open>msgCache\<close>, \<open>Client\<close>, \<open>ringFrame\<close>, \<open>ZSocket\<close> (transmit side) inside \<open>ZSocketFull\<close>, \<open>netIf\<close>, \<open>sockIf\<close>, \<open>zsockIf\<close>), a
  method is a function that returns its results and the new record, with the name of the method
  (prefixed by its type where several types have it).  Sequence numbers and counts keep their
  width as words.  A nil slice and an empty one differ where the code tests for nil.  Time is an
  argument of the handlers that read the clock.

  \<^bold>\<open>Bounds, loops and blocking.\<close>  Loops are total recursive functions.  The concurrent properties
  assume a stream of fewer than \<open>2 ^ 64\<close> messages, the range of sequence numbers (\<open>2 ^ 63\<close> for the end
  of the session, where the code adds a length to a sequence number).  The answers of \<^verbatim>\<open>Poll\<close> are a list that the waiting
  loop consumes; an operation that would wait for ever has the value \<open>None\<close>.  Allocation does not
  fail: \<^verbatim>\<open>Cache_Memory\<close> says how much the cache asks for.

  A listening loop is modelled by its rounds, since it never ends by itself; \<^verbatim>\<open>Sleep\<close> is a partial
  function whose value is \<open>None\<close> when the clock never gets there.

  \<^bold>\<open>Parameters.\<close>  Code that is not in the repository is an argument: the C library as the record
  \<open>c_os\<close> of its functions over a state of the world, \<open>mmap\<close>, the package net in the connections, the
  kernel's reaction to a flush in the transmit ring and its filling of the receive ring, the checksum
  and the packet accessors of the package nettypes, the decoder of go-ats, and the network as a whole,
  which is arbitrary except where a property says that it only delivers datagrams of the session.
  Constants of C headers have their values on 64-bit Linux.

  \<^bold>\<open>Not modelled.\<close>  Log lines and statistics output, the flag parser, \<^verbatim>\<open>setDstAddr\<close> (never called), and a
  flush while other goroutines are in the middle of a write: \<^verbatim>\<open>FlushFrames\<close> is one step.  The connections keep their system calls as separate arguments
  instead of the record \<open>c_os\<close>.  Memory is sequentially consistent: data races are visible only as
  the interleavings of the steps above.

  \<^bold>\<open>Next.\<close>  A flush in the middle of writes; the connections over the record of C functions; the
  checksum of the IPv4 header.
\<close>

end
